theory Spec2Isabelle
  imports Main "HOL-Library.Word"
begin

section \<open>JavaScript values\<close>

text \<open>
  The Paragraph tool is a JavaScript class. Its fields hold dynamically typed values and
  its fallbacks (\<^verbatim>\<open>a || b\<close>), comparisons (\<^verbatim>\<open>===\<close>) and
  concatenations (\<^verbatim>\<open>+\<close>) act on them, so the embedding starts with the
  primitive values of the language. A JavaScript string is a sequence of 16-bit code units.
  Numbers occur only as results of \<^verbatim>\<open>+\<close> on operands that are not strings;
  they are kept as \<open>NaN\<close> or an integer (exact below \<open>2^53\<close>), other doubles are
  outside the model, as are objects, symbols and big integers in the place of a field value.
\<close>

type_synonym jsstring = "16 word list"

definition js_of :: "string \<Rightarrow> jsstring" where
  "js_of s = map of_char s"

datatype jsnum = NaN | Fin int

datatype jsval = JUndefined | JNull | JBool bool | JNum jsnum | JStr jsstring

datatype error = TypeError | SyntaxError | InvalidCharacterError

text \<open>ToBoolean: the falsy values are undefined, null, false, NaN, 0 and the empty string.\<close>

fun truthy :: "jsval \<Rightarrow> bool" where
  "truthy JUndefined = False"
| "truthy JNull = False"
| "truthy (JBool b) = b"
| "truthy (JNum NaN) = False"
| "truthy (JNum (Fin i)) = (i \<noteq> 0)"
| "truthy (JStr s) = (s \<noteq> [])"

text \<open>\<^verbatim>\<open>a || b\<close> yields \<open>a\<close> itself when it is truthy, otherwise \<open>b\<close>.\<close>

definition js_or :: "jsval \<Rightarrow> jsval \<Rightarrow> jsval" where
  "js_or a b = (if truthy a then a else b)"

text \<open>\<^verbatim>\<open>a === b\<close>: same type and same value, except that NaN equals nothing.\<close>

definition strict_eq :: "jsval \<Rightarrow> jsval \<Rightarrow> bool" where
  "strict_eq a b = (a = b \<and> a \<noteq> JNum NaN)"

definition digit :: "nat \<Rightarrow> char" where
  "digit n = ''0123456789'' ! (n mod 10)"

fun dec_nat :: "nat \<Rightarrow> string" where
  "dec_nat n = (if n < 10 then [digit n] else dec_nat (n div 10) @ [digit n])"

declare dec_nat.simps [simp del]

definition dec_int :: "int \<Rightarrow> string" where
  "dec_int i = (if i < 0 then CHR ''-'' # dec_nat (nat (- i)) else dec_nat (nat i))"

text \<open>ToString on primitives.\<close>

fun to_string :: "jsval \<Rightarrow> jsstring" where
  "to_string JUndefined = js_of ''undefined''"
| "to_string JNull = js_of ''null''"
| "to_string (JBool b) = (if b then js_of ''true'' else js_of ''false'')"
| "to_string (JNum NaN) = js_of ''NaN''"
| "to_string (JNum (Fin i)) = js_of (dec_int i)"
| "to_string (JStr s) = s"

text \<open>ToNumber on the primitives that are not strings (the only ones \<open>js_add\<close> converts).\<close>

fun to_number :: "jsval \<Rightarrow> jsnum" where
  "to_number JUndefined = NaN"
| "to_number JNull = Fin 0"
| "to_number (JBool b) = Fin (if b then 1 else 0)"
| "to_number (JNum n) = n"
| "to_number (JStr s) = NaN"

fun num_add :: "jsnum \<Rightarrow> jsnum \<Rightarrow> jsnum" where
  "num_add (Fin a) (Fin b) = Fin (a + b)"
| "num_add _ _ = NaN"

fun is_string :: "jsval \<Rightarrow> bool" where
  "is_string (JStr s) = True"
| "is_string _ = False"

text \<open>
  \<^verbatim>\<open>a + b\<close>: when either operand is a string both are converted to strings and
  concatenated, otherwise both are converted to numbers and added.
\<close>

definition js_add :: "jsval \<Rightarrow> jsval \<Rightarrow> jsval" where
  "js_add a b =
     (if is_string a \<or> is_string b then JStr (to_string a @ to_string b)
      else JNum (num_add (to_number a) (to_number b)))"

text \<open>
  \<^verbatim>\<open>String.prototype.trim\<close> removes the white space and line terminator code
  units of ECMAScript from both ends: TAB, LF, VT, FF, CR, SP, NBSP, U+1680, U+2000 to
  U+200A, U+2028, U+2029, U+202F, U+205F, U+3000 and U+FEFF.
\<close>

definition white_space :: "16 word \<Rightarrow> bool" where
  "white_space u =
     (u \<in> {0x09, 0x0A, 0x0B, 0x0C, 0x0D, 0x20, 0xA0, 0x1680, 0x2028, 0x2029, 0x202F,
            0x205F, 0x3000, 0xFEFF}
      \<or> (0x2000 \<le> u \<and> u \<le> 0x200A))"

definition trim :: "jsstring \<Rightarrow> jsstring" where
  "trim s = rev (dropWhile white_space (rev (dropWhile white_space s)))"

text \<open>
  \<^verbatim>\<open>v.trim()\<close> on a value: reading a property of undefined or null throws, and a
  boolean or a number has no \<^verbatim>\<open>trim\<close> method, so calling it throws as well.
\<close>

fun call_trim :: "jsval \<Rightarrow> error + jsstring" where
  "call_trim (JStr s) = Inr (trim s)"
| "call_trim _ = Inl TypeError"

section \<open>The document\<close>

text \<open>
  The component creates DOM elements, keeps a reference to one of them and hands
  references to the host. Elements therefore live in a store indexed by their identity;
  \<^verbatim>\<open>document.createElement\<close> allocates the next identity. Deferred work
  (\<^verbatim>\<open>window.requestAnimationFrame\<close>) is a count of scheduled callbacks: the only
  callback the component ever schedules is the one of \<^verbatim>\<open>hydrate\<close>.
\<close>

datatype handler = OnKeyUp | TuneClick nat "nat list"

datatype editable = CE_inherit | CE_true | CE_false

record element =
  classList :: "jsstring list"
  contentEditable :: editable
  dataset_placeholder :: "jsstring option"
  innerHTML :: jsstring
  children :: "nat list"
  listeners :: "(jsstring \<times> handler) list"

record page =
  dom :: "nat \<Rightarrow> element"
  dom_next :: nat
  raf_queue :: nat

text \<open>
  What the browser does with markup is not part of the component: assigning
  \<^verbatim>\<open>innerHTML\<close> parses the string and reading it serialises the tree again, and
  \<^verbatim>\<open>textContent\<close> is the text of that tree. Both are parameters of the model.
\<close>

record browser =
  serialize_html :: "jsstring \<Rightarrow> jsstring"
  text_of_html :: "jsstring \<Rightarrow> jsstring"

definition new_element :: element where
  "new_element = \<lparr>classList = [], contentEditable = CE_inherit, dataset_placeholder = None,
                   innerHTML = [], children = [], listeners = []\<rparr>"

definition empty_page :: page where
  "empty_page = \<lparr>dom = (\<lambda>_. new_element), dom_next = 0, raf_queue = 0\<rparr>"

definition createElement :: "page \<Rightarrow> nat \<times> page" where
  "createElement pg =
     (dom_next pg, pg\<lparr>dom := (dom pg)(dom_next pg := new_element), dom_next := Suc (dom_next pg)\<rparr>)"

definition update_element :: "nat \<Rightarrow> (element \<Rightarrow> element) \<Rightarrow> page \<Rightarrow> page" where
  "update_element e f pg = pg\<lparr>dom := (dom pg)(e := f (dom pg e))\<rparr>"

text \<open>
  \<^verbatim>\<open>el.innerHTML = v\<close>: the value is converted to a string (null to the empty
  string) and parsed; the empty string leaves the element without content.
\<close>

definition html_string :: "jsval \<Rightarrow> jsstring" where
  "html_string v = (case v of JNull \<Rightarrow> [] | _ \<Rightarrow> to_string v)"

definition set_innerHTML :: "browser \<Rightarrow> nat \<Rightarrow> jsval \<Rightarrow> page \<Rightarrow> page" where
  "set_innerHTML b e v pg =
     update_element e
       (\<lambda>el. el\<lparr>innerHTML := (if html_string v = [] then [] else serialize_html b (html_string v)),
                children := []\<rparr>) pg"

text \<open>
  \<^verbatim>\<open>DOMTokenList\<close>: \<^verbatim>\<open>add\<close> and \<^verbatim>\<open>toggle\<close> first validate their
  tokens (an empty token is a SyntaxError, one with ASCII white space an
  InvalidCharacterError) and change nothing when they throw.
\<close>

definition ascii_white_space :: "16 word \<Rightarrow> bool" where
  "ascii_white_space u = (u \<in> {0x09, 0x0A, 0x0C, 0x0D, 0x20})"

fun check_tokens :: "jsstring list \<Rightarrow> error option" where
  "check_tokens [] = None"
| "check_tokens (t # ts) =
     (if t = [] then Some SyntaxError
      else if list_ex ascii_white_space t then Some InvalidCharacterError
      else check_tokens ts)"

fun append_tokens :: "jsstring list \<Rightarrow> jsstring list \<Rightarrow> jsstring list" where
  "append_tokens cs [] = cs"
| "append_tokens cs (t # ts) = append_tokens (if t \<in> set cs then cs else cs @ [t]) ts"

definition classList_add :: "nat \<Rightarrow> jsstring list \<Rightarrow> page \<Rightarrow> error option \<times> page" where
  "classList_add e ts pg =
     (case check_tokens ts of
        Some err \<Rightarrow> (Some err, pg)
      | None \<Rightarrow> (None, update_element e (\<lambda>el. el\<lparr>classList := append_tokens (classList el) ts\<rparr>) pg))"

definition classList_toggle :: "nat \<Rightarrow> jsstring \<Rightarrow> bool \<Rightarrow> page \<Rightarrow> error option \<times> page" where
  "classList_toggle e t force pg =
     (case check_tokens [t] of
        Some err \<Rightarrow> (Some err, pg)
      | None \<Rightarrow>
          (None, update_element e
             (\<lambda>el. el\<lparr>classList :=
                (if t \<in> set (classList el)
                 then (if force then classList el else removeAll t (classList el))
                 else (if force then classList el @ [t] else classList el))\<rparr>) pg))"

definition appendChild :: "nat \<Rightarrow> nat \<Rightarrow> page \<Rightarrow> page" where
  "appendChild parent child pg =
     update_element parent (\<lambda>el. el\<lparr>children := children el @ [child]\<rparr>) pg"

definition addEventListener :: "nat \<Rightarrow> jsstring \<Rightarrow> handler \<Rightarrow> page \<Rightarrow> page" where
  "addEventListener e ty h pg =
     update_element e
       (\<lambda>el. el\<lparr>listeners := (if (ty, h) \<in> set (listeners el) then listeners el
                               else listeners el @ [(ty, h)])\<rparr>) pg"

section \<open>The data model\<close>

text \<open>
  \<^verbatim>\<open>ParagraphData\<close> and \<^verbatim>\<open>ParagraphConfig\<close> are plain objects; a field
  that is absent reads as undefined, so each field is a value and \<open>JUndefined\<close> stands
  for a missing one. The host's API object is given with the members the tool uses.
  An argument that may be undefined or null as a whole is an \<open>option\<close>.
\<close>

record ParagraphData =
  "text" :: jsval
  alignment :: jsval

record ParagraphConfig =
  placeholder :: jsval
  preserveBlank :: jsval
  defaultAlignment :: jsval

record EditorAPI =
  styles_block :: jsval
  styles_settingsButtonActive :: jsval
  i18n_t :: "jsval \<Rightarrow> jsval"

record params =
  data :: "ParagraphData option"
  config :: "ParagraphConfig option"
  api :: "EditorAPI option"
  readOnly :: jsval

record CSS =
  block :: jsval
  wrapper :: jsstring
  settingsButtonActive :: jsval
  css_alignment :: "(jsstring \<times> jsstring) list"

record tune =
  name :: jsstring
  icon :: jsval

text \<open>The fields of an instance, \<^verbatim>\<open>this._data\<close> as \<open>this_data\<close> and so on.\<close>

record Paragraph =
  this_api :: EditorAPI
  this_readOnly :: jsval
  this_config :: ParagraphConfig
  this_CSS :: CSS
  this_onKeyUp_bound :: bool
  this_placeholder :: jsval
  this_data :: ParagraphData
  this_tunesButtons :: "tune list"
  this_element :: "nat option"
  this_preserveBlank :: jsval

record pasted =
  pasted_innerHTML :: jsstring
  pasted_textAlign :: jsstring

definition DEFAULT_PLACEHOLDER :: jsstring where
  "DEFAULT_PLACEHOLDER = []"

definition ALIGNMENTS :: "jsstring list" where
  "ALIGNMENTS = [js_of ''left'', js_of ''center'', js_of ''right'', js_of ''justify'']"

definition DEFAULT_ALIGNMENT :: jsstring where
  "DEFAULT_ALIGNMENT = js_of ''left''"

definition empty_object :: ParagraphData where
  "empty_object = \<lparr>text = JUndefined, alignment = JUndefined\<rparr>"

section \<open>The class\<close>

text \<open>
  \<^verbatim>\<open>hydrate\<close> only schedules a callback for the next animation frame. The callback
  itself, \<open>hydrate_callback\<close>, writes \<^verbatim>\<open>this._data.text || ''\<close> into the element
  as they are when the frame comes; \<open>animation_frame\<close> runs the callbacks scheduled so far.
  A callback that finds no element throws into the event loop and changes nothing.
\<close>

definition hydrate :: "page \<Rightarrow> page" where
  "hydrate pg = pg\<lparr>raf_queue := Suc (raf_queue pg)\<rparr>"

definition hydrate_callback :: "browser \<Rightarrow> Paragraph \<Rightarrow> page \<Rightarrow> page" where
  "hydrate_callback b this pg =
     (case this_element this of
        None \<Rightarrow> pg
      | Some e \<Rightarrow> set_innerHTML b e (js_or (text (this_data this)) (JStr [])) pg)"

definition animation_frame :: "browser \<Rightarrow> Paragraph \<Rightarrow> page \<Rightarrow> page" where
  "animation_frame b this pg = ((hydrate_callback b this) ^^ raf_queue pg) (pg\<lparr>raf_queue := 0\<rparr>)"

text \<open>
  The getter \<^verbatim>\<open>get data\<close> copies the element's markup into \<^verbatim>\<open>this._data.text\<close>
  when there is an element, and returns \<^verbatim>\<open>this._data\<close>. The setter stores
  \<^verbatim>\<open>data || {}\<close> and schedules a hydration when there is an element. The object
  the setter stores is the one the caller passed, so the getter's write is visible to
  the caller too; nothing below depends on what the caller sees of it, and the instance
  holds its data by value.
\<close>

definition get_data :: "Paragraph \<Rightarrow> page \<Rightarrow> ParagraphData \<times> Paragraph" where
  "get_data this pg =
     (case this_element this of
        None \<Rightarrow> (this_data this, this)
      | Some e \<Rightarrow>
          (let d = (this_data this)\<lparr>text := JStr (innerHTML (dom pg e))\<rparr>
           in (d, this\<lparr>this_data := d\<rparr>)))"

definition set_data :: "ParagraphData option \<Rightarrow> Paragraph \<Rightarrow> page \<Rightarrow> Paragraph \<times> page" where
  "set_data d this pg =
     (let this1 = this\<lparr>this_data := (case d of None \<Rightarrow> empty_object | Some d' \<Rightarrow> d')\<rparr>
      in if this_element this1 \<noteq> None then (this1, hydrate pg) else (this1, pg))"

text \<open>
  The constructor. It throws a TypeError where it reads a member of an argument that is
  undefined (\<^verbatim>\<open>this.api.styles\<close>, \<^verbatim>\<open>config.placeholder\<close>, \<^verbatim>\<open>data.text\<close>,
  in this order). The icons are the contents of the SVG files, which the bundler loads as
  strings; \<open>require_svg\<close> stands for \<^verbatim>\<open>require(path).default\<close>. The last statement,
  \<^verbatim>\<open>this.data = data\<close>, goes through the setter.
\<close>

definition constructor :: "(jsstring \<Rightarrow> jsval) \<Rightarrow> params \<Rightarrow> page \<Rightarrow> error + Paragraph \<times> page" where
  "constructor require_svg p pg =
     (case api p of None \<Rightarrow> Inl TypeError | Some a \<Rightarrow>
      (case config p of None \<Rightarrow> Inl TypeError | Some c \<Rightarrow>
       (case data p of None \<Rightarrow> Inl TypeError | Some d \<Rightarrow>
          Inr (set_data (Some d)
            \<lparr>this_api = a,
             this_readOnly = readOnly p,
             this_config = c,
             this_CSS = \<lparr>block = styles_block a,
                          wrapper = js_of ''ce-paragraph'',
                          settingsButtonActive = styles_settingsButtonActive a,
                          css_alignment =
                            [(js_of ''left'', js_of ''ce-paragraph--left''),
                             (js_of ''center'', js_of ''ce-paragraph--center''),
                             (js_of ''right'', js_of ''ce-paragraph--right''),
                             (js_of ''justify'', js_of ''ce-paragraph--justify'')]\<rparr>,
             this_onKeyUp_bound = (\<not> truthy (readOnly p)),
             this_placeholder =
               (if truthy (placeholder c) then placeholder c else JStr DEFAULT_PLACEHOLDER),
             this_data =
               \<lparr>text = js_or (text d) (JStr []),
                alignment = js_or (alignment d)
                              (js_or (defaultAlignment c) (JStr DEFAULT_ALIGNMENT))\<rparr>,
             this_tunesButtons =
               [\<lparr>name = js_of ''left'', icon = require_svg (js_of ''./tune-left-icon.svg'')\<rparr>,
                \<lparr>name = js_of ''center'', icon = require_svg (js_of ''./tune-center-icon.svg'')\<rparr>,
                \<lparr>name = js_of ''right'', icon = require_svg (js_of ''./tune-right-icon.svg'')\<rparr>,
                \<lparr>name = js_of ''justify'', icon = require_svg (js_of ''./tune-justify-icon.svg'')\<rparr>],
             this_element = None,
             this_preserveBlank =
               (if preserveBlank c \<noteq> JUndefined then preserveBlank c else JBool False)\<rparr>
            pg))))"

text \<open>
  \<^verbatim>\<open>this._CSS.alignment[key]\<close> reads a property of an object literal: one of its own
  four, or one it inherits from \<^verbatim>\<open>Object.prototype\<close> (a function, or the prototype
  itself), or none, which reads as undefined. \<open>property_token\<close> is the string a
  \<^verbatim>\<open>DOMTokenList\<close> method receives for it; the source text of a built-in function
  depends on the engine, but it always contains spaces.
\<close>

datatype property = Own jsstring | Inherited | Missing

definition object_prototype_names :: "jsstring list" where
  "object_prototype_names =
     map js_of [''constructor'', ''hasOwnProperty'', ''isPrototypeOf'', ''propertyIsEnumerable'',
                ''toLocaleString'', ''toString'', ''valueOf'', ''__proto__'', ''__defineGetter__'',
                ''__defineSetter__'', ''__lookupGetter__'', ''__lookupSetter__'']"

definition css_alignment_get :: "CSS \<Rightarrow> jsval \<Rightarrow> property" where
  "css_alignment_get css k =
     (case map_of (css_alignment css) (to_string k) of
        Some c \<Rightarrow> Own c
      | None \<Rightarrow> if to_string k \<in> set object_prototype_names then Inherited else Missing)"

fun property_token :: "property \<Rightarrow> jsstring" where
  "property_token (Own c) = c"
| "property_token Inherited = js_of ''function () { [native code] }''"
| "property_token Missing = js_of ''undefined''"

text \<open>
  \<^verbatim>\<open>drawView\<close> creates the element. The element exists as soon as it is created,
  also when \<^verbatim>\<open>classList.add\<close> throws afterwards.
\<close>

definition drawView :: "Paragraph \<Rightarrow> page \<Rightarrow> (error + nat) \<times> page" where
  "drawView this pg =
     (let (node, pg1) = createElement pg in
      case classList_add node
             [wrapper (this_CSS this), to_string (block (this_CSS this)),
              property_token (css_alignment_get (this_CSS this) (alignment (this_data this)))] pg1 of
        (Some err, pg2) \<Rightarrow> (Inl err, pg2)
      | (None, pg2) \<Rightarrow>
          (let pg3 = update_element node (\<lambda>el. el\<lparr>contentEditable := CE_false\<rparr>) pg2;
               pg4 = update_element node
                       (\<lambda>el. el\<lparr>dataset_placeholder :=
                          Some (to_string (i18n_t (this_api this) (this_placeholder this)))\<rparr>) pg3
           in if \<not> truthy (this_readOnly this)
              then (Inr node,
                    addEventListener node (js_of ''keyup'') OnKeyUp
                      (update_element node (\<lambda>el. el\<lparr>contentEditable := CE_true\<rparr>) pg4))
              else (Inr node, pg4)))"

definition render :: "Paragraph \<Rightarrow> page \<Rightarrow> (error + nat) \<times> Paragraph \<times> page" where
  "render this pg =
     (case this_element this of
        None \<Rightarrow>
          (case drawView this pg of
             (Inl err, pg1) \<Rightarrow> (Inl err, this, pg1)
           | (Inr node, pg1) \<Rightarrow> (Inr node, this\<lparr>this_element := Some node\<rparr>, hydrate pg1))
      | Some e \<Rightarrow> (Inr e, this, hydrate pg))"

text \<open>
  \<^verbatim>\<open>merge\<close> reads \<^verbatim>\<open>this.data\<close> twice, through the getter, and stores the new
  object through the setter. \<^verbatim>\<open>data.text\<close> throws when \<^verbatim>\<open>data\<close> is undefined,
  after the first read.
\<close>

definition merge :: "ParagraphData option \<Rightarrow> Paragraph \<Rightarrow> page \<Rightarrow> error option \<times> Paragraph \<times> page" where
  "merge d this pg =
     (let (d1, this1) = get_data this pg in
      case d of
        None \<Rightarrow> (Some TypeError, this1, pg)
      | Some d' \<Rightarrow>
          (let (d2, this2) = get_data this1 pg;
               newData = \<lparr>text = js_add (text d1) (text d'), alignment = alignment d2\<rparr>;
               (this3, pg3) = set_data (Some newData) this2 pg
           in (None, this3, pg3)))"

definition validate :: "Paragraph \<Rightarrow> ParagraphData option \<Rightarrow> error + bool" where
  "validate this savedData =
     (case savedData of
        None \<Rightarrow> Inl TypeError
      | Some d \<Rightarrow>
          (case call_trim (text d) of
             Inl err \<Rightarrow> Inl err
           | Inr t \<Rightarrow>
               if strict_eq (JStr t) (JStr []) \<and> \<not> truthy (this_preserveBlank this)
               then Inr False else Inr True))"

definition toggleTune :: "jsval \<Rightarrow> Paragraph \<Rightarrow> page \<Rightarrow> Paragraph" where
  "toggleTune tune this pg =
     (let (d1, this1) = get_data this pg in
      if strict_eq (alignment d1) tune
      then (let (d2, this2) = get_data this1 pg
            in this2\<lparr>this_data := d2\<lparr>alignment := defaultAlignment (this_config this2)\<rparr>\<rparr>)
      else (let (d2, this2) = get_data this1 pg
            in this2\<lparr>this_data := d2\<lparr>alignment := tune\<rparr>\<rparr>))"

definition save :: "nat option \<Rightarrow> Paragraph \<Rightarrow> page \<Rightarrow> (error + ParagraphData) \<times> Paragraph" where
  "save toolsContent this pg =
     (case toolsContent of
        None \<Rightarrow> (Inl TypeError, this)
      | Some el \<Rightarrow>
          (let t = innerHTML (dom pg el);
               (d, this1) = get_data this pg
           in (Inr \<lparr>text = JStr t, alignment = alignment d\<rparr>, this1)))"

text \<open>
  The pasted element of a paste event is a DOM element of the host's: its
  \<^verbatim>\<open>innerHTML\<close> and its inline \<^verbatim>\<open>style.textAlign\<close> are strings.
\<close>

definition onPaste :: "pasted \<Rightarrow> Paragraph \<Rightarrow> page \<Rightarrow> Paragraph \<times> page" where
  "onPaste event this pg =
     set_data
       (Some \<lparr>text = JStr (pasted_innerHTML event),
              alignment = js_or (JStr (pasted_textAlign event))
                            (js_or (defaultAlignment (this_config this)) (JStr DEFAULT_ALIGNMENT))\<rparr>)
       this pg"

definition onKeyUp :: "browser \<Rightarrow> jsval \<Rightarrow> Paragraph \<Rightarrow> page \<Rightarrow> error option \<times> page" where
  "onKeyUp b code this pg =
     (if \<not> strict_eq code (JStr (js_of ''Backspace'')) \<and> \<not> strict_eq code (JStr (js_of ''Delete''))
      then (None, pg)
      else (case this_element this of
              None \<Rightarrow> (Some TypeError, pg)
            | Some e \<Rightarrow>
                if strict_eq (JStr (text_of_html b (innerHTML (dom pg e)))) (JStr [])
                then (None, set_innerHTML b e (JStr []) pg)
                else (None, pg)))"

text \<open>
  \<^verbatim>\<open>renderSettings\<close>: \<open>render_tunes\<close> is the \<^verbatim>\<open>map\<close> over the tunes, which builds
  the buttons, and \<open>add_click_listeners\<close> the \<^verbatim>\<open>forEach\<close> that gives button
  \<open>index\<close> its click listener, a closure over \<open>index\<close> and the array of buttons.
\<close>

fun render_tunes :: "browser \<Rightarrow> nat \<Rightarrow> tune list \<Rightarrow> Paragraph \<Rightarrow> page \<Rightarrow> (error + nat list) \<times> Paragraph \<times> page" where
  "render_tunes b w [] this pg = (Inr [], this, pg)"
| "render_tunes b w (t # ts) this pg =
     (let (button, pg1) = createElement pg in
      case classList_add button [js_of ''cdx-settings-button''] pg1 of
        (Some err, pg2) \<Rightarrow> (Inl err, this, pg2)
      | (None, pg2) \<Rightarrow>
          (let pg3 = set_innerHTML b button (icon t) pg2;
               (d, this1) = get_data this pg3
           in case classList_toggle button (to_string (settingsButtonActive (this_CSS this1)))
                     (strict_eq (JStr (name t))
                        (js_or (alignment d) (defaultAlignment (this_config this1)))) pg3 of
                (Some err, pg4) \<Rightarrow> (Inl err, this1, pg4)
              | (None, pg4) \<Rightarrow>
                  (case render_tunes b w ts this1 (appendChild w button pg4) of
                     (Inl err, this2, pg5) \<Rightarrow> (Inl err, this2, pg5)
                   | (Inr bs, this2, pg5) \<Rightarrow> (Inr (button # bs), this2, pg5))))"

fun add_click_listeners :: "nat list \<Rightarrow> nat \<Rightarrow> nat list \<Rightarrow> page \<Rightarrow> page" where
  "add_click_listeners elements index [] pg = pg"
| "add_click_listeners elements index (el # els) pg =
     add_click_listeners elements (Suc index) els
       (addEventListener el (js_of ''click'') (TuneClick index elements) pg)"

definition renderSettings :: "browser \<Rightarrow> Paragraph \<Rightarrow> page \<Rightarrow> (error + nat) \<times> Paragraph \<times> page" where
  "renderSettings b this pg =
     (let (w, pg1) = createElement pg in
      case render_tunes b w (this_tunesButtons this) this pg1 of
        (Inl err, this1, pg2) \<Rightarrow> (Inl err, this1, pg2)
      | (Inr elements, this1, pg2) \<Rightarrow> (Inr w, this1, add_click_listeners elements 0 elements pg2))"

text \<open>
  The click listener of button \<open>index\<close>: \<^verbatim>\<open>_toggleTune\<close> with the name of the tune,
  then \<open>refresh_tunes\<close>, the loop over the buttons that updates their classes and those of
  the block's element. \<^verbatim>\<open>this._tunesButtons[i].name\<close> throws when there is no tune
  \<open>i\<close>, \<^verbatim>\<open>this._element.classList\<close> when nothing was rendered.
\<close>

definition tune_name :: "tune list \<Rightarrow> nat \<Rightarrow> error + jsstring" where
  "tune_name ts i = (if i < length ts then Inr (name (ts ! i)) else Inl TypeError)"

fun refresh_tunes :: "nat list \<Rightarrow> nat \<Rightarrow> Paragraph \<Rightarrow> page \<Rightarrow> error option \<times> Paragraph \<times> page" where
  "refresh_tunes [] i this pg = (None, this, pg)"
| "refresh_tunes (el # els) i this pg =
     (case tune_name (this_tunesButtons this) i of
        Inl err \<Rightarrow> (Some err, this, pg)
      | Inr nm \<Rightarrow>
          (let (d1, this1) = get_data this pg in
           case classList_toggle el (to_string (settingsButtonActive (this_CSS this1)))
                  (strict_eq (JStr nm) (alignment d1)) pg of
             (Some err, pg1) \<Rightarrow> (Some err, this1, pg1)
           | (None, pg1) \<Rightarrow>
               (case this_element this1 of
                  None \<Rightarrow> (Some TypeError, this1, pg1)
                | Some e \<Rightarrow>
                    (let (d2, this2) = get_data this1 pg1 in
                     case classList_toggle e
                            (property_token (css_alignment_get (this_CSS this2) (JStr nm)))
                            (strict_eq (JStr nm) (alignment d2)) pg1 of
                       (Some err, pg2) \<Rightarrow> (Some err, this2, pg2)
                     | (None, pg2) \<Rightarrow> refresh_tunes els (Suc i) this2 pg2))))"

definition tune_click :: "nat \<Rightarrow> nat list \<Rightarrow> Paragraph \<Rightarrow> page \<Rightarrow> error option \<times> Paragraph \<times> page" where
  "tune_click index elements this pg =
     (case tune_name (this_tunesButtons this) index of
        Inl err \<Rightarrow> (Some err, this, pg)
      | Inr nm \<Rightarrow> refresh_tunes elements 0 (toggleTune (JStr nm) this pg) pg)"

section \<open>The host and the user\<close>

text \<open>
  An event dispatched to an element runs the listeners registered there for its type; an
  exception thrown by a listener goes to the event loop and the state stays as the
  listener left it. \<open>code\<close> is the \<^verbatim>\<open>code\<close> member of the event (undefined for a
  mouse event).
\<close>

definition run_handler :: "browser \<Rightarrow> jsval \<Rightarrow> handler \<Rightarrow> Paragraph \<times> page \<Rightarrow> Paragraph \<times> page" where
  "run_handler b code h st =
     (case h of
        OnKeyUp \<Rightarrow> (fst st, snd (onKeyUp b code (fst st) (snd st)))
      | TuneClick index elements \<Rightarrow> snd (tune_click index elements (fst st) (snd st)))"

definition dispatch :: "browser \<Rightarrow> jsstring \<Rightarrow> jsval \<Rightarrow> nat \<Rightarrow> Paragraph \<times> page \<Rightarrow> Paragraph \<times> page" where
  "dispatch b ty code target st =
     foldl (\<lambda>st' h. run_handler b code h st') st
       (map snd (filter (\<lambda>l. fst l = ty) (listeners (dom (snd st) target))))"

text \<open>
  What can happen to an instance after its construction: the calls of the host (the
  private setter among them), the events of the user on an element of the page, the
  user's editing of an element that is editable, and the next animation frame. A call
  that throws leaves the state as it was when it threw.
\<close>

datatype op =
    Render
  | Save "nat option"
  | Validate "ParagraphData option"
  | Merge "ParagraphData option"
  | OnPaste pasted
  | RenderSettings
  | SetData "ParagraphData option"
  | Click nat
  | KeyUp nat jsstring
  | UserInput nat jsstring
  | AnimationFrame

fun step :: "browser \<Rightarrow> op \<Rightarrow> Paragraph \<times> page \<Rightarrow> Paragraph \<times> page" where
  "step b Render (this, pg) = snd (render this pg)"
| "step b (Save el) (this, pg) = (snd (save el this pg), pg)"
| "step b (Validate d) (this, pg) = (this, pg)"
| "step b (Merge d) (this, pg) = snd (merge d this pg)"
| "step b (OnPaste event) (this, pg) = onPaste event this pg"
| "step b RenderSettings (this, pg) = snd (renderSettings b this pg)"
| "step b (SetData d) (this, pg) = set_data d this pg"
| "step b (Click el) (this, pg) = dispatch b (js_of ''click'') JUndefined el (this, pg)"
| "step b (KeyUp el code) (this, pg) = dispatch b (js_of ''keyup'') (JStr code) el (this, pg)"
| "step b (UserInput el html) (this, pg) =
     (if contentEditable (dom pg el) = CE_true
      then (this, update_element el (\<lambda>e. e\<lparr>innerHTML := html\<rparr>) pg)
      else (this, pg))"
| "step b AnimationFrame (this, pg) = (this, animation_frame b this pg)"

fun run :: "browser \<Rightarrow> op list \<Rightarrow> Paragraph \<times> page \<Rightarrow> Paragraph \<times> page" where
  "run b [] st = st"
| "run b (x # xs) st = run b xs (step b x st)"

section \<open>Auxiliary definitions\<close>

subsection \<open>What the proofs speak about\<close>

text \<open>
  The data the getter returns, and an instance with its data and its element blanked:
  every operation leaves the rest of an instance as it is.
\<close>

definition the_data :: "Paragraph \<Rightarrow> page \<Rightarrow> ParagraphData" where
  "the_data this pg = fst (get_data this pg)"

definition shell :: "Paragraph \<Rightarrow> Paragraph" where
  "shell this = this\<lparr>this_data := empty_object, this_element := None\<rparr>"

text \<open>
  The four alignments, and the operations that bring no other value in: a paste whose
  inline alignment is empty or one of the four, a setter call with data that carry one of
  the four.
\<close>

definition alignment_ok :: "jsval \<Rightarrow> bool" where
  "alignment_ok v = (v \<in> set (map JStr ALIGNMENTS))"

fun op_ok :: "op \<Rightarrow> bool" where
  "op_ok (OnPaste event) = (pasted_textAlign event = [] \<or> pasted_textAlign event \<in> set ALIGNMENTS)"
| "op_ok (SetData d) = (case d of None \<Rightarrow> False | Some d' \<Rightarrow> alignment_ok (alignment d'))"
| "op_ok _ = True"

definition aligned :: "Paragraph \<Rightarrow> bool" where
  "aligned this =
     (alignment_ok (alignment (this_data this)) \<and>
      alignment_ok (defaultAlignment (this_config this)) \<and>
      set (map name (this_tunesButtons this)) \<subseteq> set ALIGNMENTS)"

text \<open>
  \<open>stable e\<close> relates two states of the document between which element \<open>e\<close> kept
  its editability and its listeners; \<open>view_ok\<close> says that the element of an instance,
  when there is one, is as \<^verbatim>\<open>drawView\<close> made it.
\<close>

definition stable :: "nat \<Rightarrow> page \<Rightarrow> page \<Rightarrow> bool" where
  "stable e pg pg' =
     (dom_next pg \<le> dom_next pg' \<and>
      contentEditable (dom pg' e) = contentEditable (dom pg e) \<and>
      listeners (dom pg' e) = listeners (dom pg e))"

definition view_ok :: "jsval \<Rightarrow> Paragraph \<times> page \<Rightarrow> bool" where
  "view_ok ro st =
     (case this_element (fst st) of
        None \<Rightarrow> True
      | Some e \<Rightarrow>
          e < dom_next (snd st) \<and>
          contentEditable (dom (snd st) e) = (if truthy ro then CE_false else CE_true) \<and>
          listeners (dom (snd st) e) = (if truthy ro then [] else [(js_of ''keyup'', OnKeyUp)]))"

subsection \<open>Compositions\<close>

text \<open>
  The data of an instance after its construction on an empty page and a sequence of
  operations; \<^verbatim>\<open>save(render())\<close> on a new instance.
\<close>

definition data_after :: "browser \<Rightarrow> (jsstring \<Rightarrow> jsval) \<Rightarrow> params \<Rightarrow> op list \<Rightarrow> error + ParagraphData" where
  "data_after b rq p ops =
     (case constructor rq p empty_page of
        Inl err \<Rightarrow> Inl err
      | Inr st \<Rightarrow> Inr (this_data (fst (run b ops st))))"

definition save_render :: "(jsstring \<Rightarrow> jsval) \<Rightarrow> params \<Rightarrow> error + ParagraphData" where
  "save_render rq p =
     (case constructor rq p empty_page of
        Inl err \<Rightarrow> Inl err
      | Inr (this, pg) \<Rightarrow>
          (case render this pg of
             (Inl err, this1, pg1) \<Rightarrow> Inl err
           | (Inr e, this1, pg1) \<Rightarrow> fst (save (Some e) this1 pg1)))"

subsection \<open>A host\<close>

text \<open>
  The class names of the editor's API, a browser that serialises markup as it was
  written, icons, a configuration without any field, and the constructor's argument
  built from them.
\<close>

definition example_api :: EditorAPI where
  "example_api = \<lparr>styles_block = JStr (js_of ''cdx-block''),
                   styles_settingsButtonActive = JStr (js_of ''cdx-settings-button--active''),
                   i18n_t = (\<lambda>v. v)\<rparr>"

definition example_browser :: browser where
  "example_browser = \<lparr>serialize_html = (\<lambda>h. h), text_of_html = (\<lambda>h. h)\<rparr>"

definition example_svg :: "jsstring \<Rightarrow> jsval" where
  "example_svg path = JStr (js_of ''<svg></svg>'')"

definition empty_config :: ParagraphConfig where
  "empty_config = \<lparr>placeholder = JUndefined, preserveBlank = JUndefined, defaultAlignment = JUndefined\<rparr>"

definition example_params :: "ParagraphData \<Rightarrow> ParagraphConfig \<Rightarrow> jsval \<Rightarrow> params" where
  "example_params d c ro = \<lparr>data = Some d, config = Some c, api = Some example_api, readOnly = ro\<rparr>"

text \<open>
  What an operation throws. A call of the host throws at most one exception; an event
  runs several listeners and an animation frame several callbacks, each of which can throw
  into the event loop, so the exceptions of an operation are a list. \<^verbatim>\<open>onPaste\<close>,
  the setter and a user's edit have no statement that can throw on the arguments their
  types allow.
\<close>

definition handler_error :: "browser \<Rightarrow> jsval \<Rightarrow> handler \<Rightarrow> Paragraph \<times> page \<Rightarrow> error option" where
  "handler_error b code h st =
     (case h of
        OnKeyUp \<Rightarrow> fst (onKeyUp b code (fst st) (snd st))
      | TuneClick index elements \<Rightarrow> fst (tune_click index elements (fst st) (snd st)))"

fun dispatch_errors :: "browser \<Rightarrow> jsval \<Rightarrow> handler list \<Rightarrow> Paragraph \<times> page \<Rightarrow> error list" where
  "dispatch_errors b code [] st = []"
| "dispatch_errors b code (h # hs) st =
     (case handler_error b code h st of None \<Rightarrow> [] | Some err \<Rightarrow> [err]) @
     dispatch_errors b code hs (run_handler b code h st)"

fun step_errors :: "browser \<Rightarrow> op \<Rightarrow> Paragraph \<times> page \<Rightarrow> error list" where
  "step_errors b Render (this, pg) =
     (case fst (render this pg) of Inl err \<Rightarrow> [err] | Inr e \<Rightarrow> [])"
| "step_errors b (Save el) (this, pg) =
     (case fst (save el this pg) of Inl err \<Rightarrow> [err] | Inr d \<Rightarrow> [])"
| "step_errors b (Validate d) (this, pg) =
     (case validate this d of Inl err \<Rightarrow> [err] | Inr v \<Rightarrow> [])"
| "step_errors b (Merge d) (this, pg) =
     (case fst (merge d this pg) of Some err \<Rightarrow> [err] | None \<Rightarrow> [])"
| "step_errors b (OnPaste event) (this, pg) = []"
| "step_errors b RenderSettings (this, pg) =
     (case fst (renderSettings b this pg) of Inl err \<Rightarrow> [err] | Inr w \<Rightarrow> [])"
| "step_errors b (SetData d) (this, pg) = []"
| "step_errors b (Click el) (this, pg) =
     dispatch_errors b JUndefined
       (map snd (filter (\<lambda>l. fst l = js_of ''click'') (listeners (dom pg el)))) (this, pg)"
| "step_errors b (KeyUp el code) (this, pg) =
     dispatch_errors b (JStr code)
       (map snd (filter (\<lambda>l. fst l = js_of ''keyup'') (listeners (dom pg el)))) (this, pg)"
| "step_errors b (UserInput el html) (this, pg) = []"
| "step_errors b AnimationFrame (this, pg) =
     (if this_element this = None then replicate (raf_queue pg) TypeError else [])"

fun run_errors :: "browser \<Rightarrow> op list \<Rightarrow> Paragraph \<times> page \<Rightarrow> error list" where
  "run_errors b [] st = []"
| "run_errors b (x # xs) st = step_errors b x st @ run_errors b xs (step b x st)"

text \<open>The exceptions of a construction on an empty page and a sequence of operations.\<close>

definition errors_after :: "browser \<Rightarrow> (jsstring \<Rightarrow> jsval) \<Rightarrow> params \<Rightarrow> op list \<Rightarrow> error list" where
  "errors_after b rq p ops =
     (case constructor rq p empty_page of
        Inl err \<Rightarrow> [err]
      | Inr st \<Rightarrow> run_errors b ops st)"

text \<open>
  Normal operation, operation by operation: the alignment of the block at its first
  \<^verbatim>\<open>render\<close> is not the name of a property that objects inherit (it is the key of a
  lookup whose result becomes a class name), \<^verbatim>\<open>save\<close> is given an element,
  \<^verbatim>\<open>merge\<close> a data object, \<^verbatim>\<open>validate\<close> saved data whose text is a string, and
  a click comes when the block is rendered.
\<close>

fun normal_op :: "Paragraph \<Rightarrow> op \<Rightarrow> bool" where
  "normal_op this Render =
     (this_element this \<noteq> None \<or>
      to_string (alignment (this_data this)) \<notin> set object_prototype_names)"
| "normal_op this (Save el) = (el \<noteq> None)"
| "normal_op this (Validate d) = (case d of None \<Rightarrow> False | Some d' \<Rightarrow> is_string (text d'))"
| "normal_op this (Merge d) = (d \<noteq> None)"
| "normal_op this (Click el) = (this_element this \<noteq> None)"
| "normal_op this x = True"

fun normal_run :: "browser \<Rightarrow> op list \<Rightarrow> Paragraph \<times> page \<Rightarrow> bool" where
  "normal_run b [] st = True"
| "normal_run b (x # xs) st = (normal_op (fst st) x \<and> normal_run b xs (step b x st))"

text \<open>
  What the operations keep true of an instance and its document: the class names are
  valid tokens and every tune has a class of its own; a keyup listener exists only once
  there is an element, and a click listener refers to a tune, and to buttons no more
  than there are tunes; no hydration is pending before there is an element.
\<close>

definition valid_token :: "jsstring \<Rightarrow> bool" where
  "valid_token t = (t \<noteq> [] \<and> \<not> list_ex ascii_white_space t)"

definition tokens_ok :: "Paragraph \<Rightarrow> bool" where
  "tokens_ok this =
     (valid_token (wrapper (this_CSS this)) \<and>
      valid_token (to_string (block (this_CSS this))) \<and>
      valid_token (to_string (settingsButtonActive (this_CSS this))) \<and>
      (\<forall>l\<in>set (css_alignment (this_CSS this)). valid_token (snd l)) \<and>
      (\<forall>t\<in>set (this_tunesButtons this). name t \<in> fst ` set (css_alignment (this_CSS this))))"

definition listener_ok :: "nat \<Rightarrow> bool \<Rightarrow> jsstring \<times> handler \<Rightarrow> bool" where
  "listener_ok n r l =
     (case snd l of
        OnKeyUp \<Rightarrow> fst l = js_of ''keyup'' \<and> r
      | TuneClick i els \<Rightarrow> fst l = js_of ''click'' \<and> i < n \<and> length els \<le> n)"

definition listeners_ok :: "nat \<Rightarrow> bool \<Rightarrow> page \<Rightarrow> bool" where
  "listeners_ok n r pg = (\<forall>el. list_all (listener_ok n r) (listeners (dom pg el)))"

definition well_formed :: "Paragraph \<times> page \<Rightarrow> bool" where
  "well_formed st =
     (tokens_ok (fst st) \<and>
      listeners_ok (length (this_tunesButtons (fst st))) (this_element (fst st) \<noteq> None) (snd st) \<and>
      (this_element (fst st) = None \<longrightarrow> raf_queue (snd st) = 0))"

definition handler_fine :: "nat \<Rightarrow> handler \<Rightarrow> bool" where
  "handler_fine n h = (case h of OnKeyUp \<Rightarrow> True | TuneClick i els \<Rightarrow> i < n \<and> length els \<le> n)"

section \<open>Lemmas\<close>

subsection \<open>Strings\<close>

lemma unat_of_char: "unat (of_char c :: 16 word) = of_char c"
proof -
  have "(of_char c :: nat) < 2 ^ 16"
    by (rule less_trans [OF nat_of_char_less_256]) simp
  then have "unat (of_nat (of_char c) :: 16 word) = of_char c"
    by (simp add: unat_of_nat take_bit_nat_eq_self)
  then show ?thesis by (simp add: of_nat_of_char)
qed

lemma js_of_eq_iff [simp]: "js_of a = js_of b \<longleftrightarrow> a = b"
proof -
  have "inj (of_char :: char \<Rightarrow> 16 word)"
  proof (rule injI)
    fix c d :: char
    assume eq: "(of_char c :: 16 word) = of_char d"
    then have "unat (of_char c :: 16 word) = unat (of_char d :: 16 word)" by simp
    then show "c = d" by (simp add: unat_of_char)
  qed
  then show ?thesis
    unfolding js_of_def by (simp add: inj_map_eq_map)
qed

lemma js_of_Nil [simp]: "js_of s = [] \<longleftrightarrow> s = []" "[] = js_of s \<longleftrightarrow> s = []"
  by (auto simp: js_of_def)

lemma dropWhile_all_iff: "(\<forall>x\<in>set (dropWhile P t). P x) \<longleftrightarrow> (\<forall>x\<in>set t. P x)"
proof
  assume all: "\<forall>x\<in>set (dropWhile P t). P x"
  have "dropWhile P t = []"
  proof (rule ccontr)
    assume ne: "dropWhile P t \<noteq> []"
    then have "\<not> P (hd (dropWhile P t))" by (rule hd_dropWhile)
    moreover have "hd (dropWhile P t) \<in> set (dropWhile P t)" using ne by simp
    ultimately show False using all by blast
  qed
  then show "\<forall>x\<in>set t. P x" by (simp add: dropWhile_eq_Nil_conv)
next
  assume "\<forall>x\<in>set t. P x"
  then show "\<forall>x\<in>set (dropWhile P t). P x" by (auto dest: set_dropWhileD)
qed

lemma trim_empty_iff: "trim t = [] \<longleftrightarrow> list_all white_space t"
  by (simp add: trim_def dropWhile_eq_Nil_conv dropWhile_all_iff list_all_iff)

subsection \<open>What an operation leaves of the instance\<close>

lemma set_data_simp:
  "set_data d this pg =
     (this\<lparr>this_data := (case d of None \<Rightarrow> empty_object | Some d' \<Rightarrow> d')\<rparr>,
      if this_element this = None then pg else hydrate pg)"
  by (simp add: set_data_def Let_def)

lemma get_data_pair: "get_data this pg = (the_data this pg, this\<lparr>this_data := the_data this pg\<rparr>)"
  by (simp add: the_data_def get_data_def Let_def split: option.splits)

lemma the_data_alignment [simp]: "alignment (the_data this pg) = alignment (this_data this)"
  by (simp add: the_data_def get_data_def Let_def split: option.splits)

lemma the_data_text:
  "text (the_data this pg) =
     (case this_element this of None \<Rightarrow> text (this_data this)
      | Some e \<Rightarrow> JStr (innerHTML (dom pg e)))"
  by (simp add: the_data_def get_data_def Let_def split: option.splits)

lemma the_data_idem [simp]: "the_data (this\<lparr>this_data := the_data this pg\<rparr>) pg = the_data this pg"
  by (simp add: the_data_def get_data_def Let_def split: option.splits)

lemma shell_data [simp]: "shell (this\<lparr>this_data := d\<rparr>) = shell this"
  by (simp add: shell_def)

lemma shell_element [simp]: "shell (this\<lparr>this_element := e\<rparr>) = shell this"
  by (simp add: shell_def)

lemma shell_fields [simp]:
  "this_api (shell this) = this_api this"
  "this_readOnly (shell this) = this_readOnly this"
  "this_config (shell this) = this_config this"
  "this_CSS (shell this) = this_CSS this"
  "this_onKeyUp_bound (shell this) = this_onKeyUp_bound this"
  "this_placeholder (shell this) = this_placeholder this"
  "this_tunesButtons (shell this) = this_tunesButtons this"
  "this_preserveBlank (shell this) = this_preserveBlank this"
  by (simp_all add: shell_def)

lemma classList_add_pair:
  "classList_add e ts pg =
     (check_tokens ts,
      if check_tokens ts = None
      then update_element e (\<lambda>el. el\<lparr>classList := append_tokens (classList el) ts\<rparr>) pg
      else pg)"
  by (simp add: classList_add_def split: option.splits)

lemma classList_toggle_pair:
  "classList_toggle e t force pg =
     (check_tokens [t],
      if check_tokens [t] = None
      then update_element e
             (\<lambda>el. el\<lparr>classList :=
                (if t \<in> set (classList el)
                 then (if force then classList el else removeAll t (classList el))
                 else (if force then classList el @ [t] else classList el))\<rparr>) pg
      else pg)"
  by (simp add: classList_toggle_def split: option.splits)


lemma refresh_tunes_this:
  "shell (fst (snd (refresh_tunes els i this pg))) = shell this \<and>
   this_element (fst (snd (refresh_tunes els i this pg))) = this_element this \<and>
   alignment (this_data (fst (snd (refresh_tunes els i this pg)))) = alignment (this_data this)"
proof (induction els arbitrary: i this pg)
  case Nil
  show ?case by simp
next
  case (Cons el els)
  show ?case
    by (simp add: get_data_pair classList_toggle_pair Cons.IH split: sum.splits option.splits)
qed

lemma render_tunes_this:
  "shell (fst (snd (render_tunes b w ts this pg))) = shell this \<and>
   this_element (fst (snd (render_tunes b w ts this pg))) = this_element this \<and>
   alignment (this_data (fst (snd (render_tunes b w ts this pg)))) = alignment (this_data this)"
proof (induction ts arbitrary: this pg)
  case Nil
  show ?case by simp
next
  case (Cons t ts)
  show ?case
    by (simp add: get_data_pair classList_toggle_pair classList_add_pair case_prod_beta
          Cons.IH Let_def split: sum.splits option.splits)
qed

lemma toggleTune_eq:
  "toggleTune tune this pg =
     this\<lparr>this_data :=
       (the_data this pg)\<lparr>alignment := (if strict_eq (alignment (this_data this)) tune
                     then defaultAlignment (this_config this) else tune)\<rparr>\<rparr>"
  by (simp add: toggleTune_def get_data_pair)



lemma renderSettings_this:
  "shell (fst (snd (renderSettings b this pg))) = shell this \<and>
   this_element (fst (snd (renderSettings b this pg))) = this_element this \<and>
   alignment (this_data (fst (snd (renderSettings b this pg)))) = alignment (this_data this)"
  using render_tunes_this [of b "fst (createElement pg)" "this_tunesButtons this" this "snd (createElement pg)"]
  by (simp add: renderSettings_def case_prod_beta split: sum.splits)

lemma save_this:
  "shell (snd (save el this pg)) = shell this \<and>
   this_element (snd (save el this pg)) = this_element this \<and>
   alignment (this_data (snd (save el this pg))) = alignment (this_data this)"
  by (simp add: save_def get_data_pair split: option.splits)

lemma merge_this:
  "shell (fst (snd (merge d this pg))) = shell this \<and>
   this_element (fst (snd (merge d this pg))) = this_element this \<and>
   alignment (this_data (fst (snd (merge d this pg)))) = alignment (this_data this)"
  by (simp add: merge_def get_data_pair set_data_simp split: option.splits)

lemma render_this:
  "shell (fst (snd (render this pg))) = shell this \<and>
   (this_element this = Some e \<longrightarrow> this_element (fst (snd (render this pg))) = Some e) \<and>
   alignment (this_data (fst (snd (render this pg)))) = alignment (this_data this)"
  by (simp add: render_def case_prod_beta split: option.splits sum.splits)

lemma onPaste_this:
  "shell (fst (onPaste event this pg)) = shell this \<and>
   this_element (fst (onPaste event this pg)) = this_element this"
  by (simp add: onPaste_def set_data_simp)

lemma set_data_this:
  "shell (fst (set_data d this pg)) = shell this \<and>
   this_element (fst (set_data d this pg)) = this_element this"
  by (simp add: set_data_simp)

lemma tune_click_this:
  "shell (fst (snd (tune_click i els this pg))) = shell this \<and>
   this_element (fst (snd (tune_click i els this pg))) = this_element this"
  by (simp add: tune_click_def refresh_tunes_this toggleTune_eq split: sum.splits)

lemma run_handler_this:
  "shell (fst (run_handler b code h st)) = shell (fst st) \<and>
   this_element (fst (run_handler b code h st)) = this_element (fst st)"
  by (cases h) (simp_all add: run_handler_def tune_click_this)

lemma foldl_run_handler_this:
  "shell (fst (foldl (\<lambda>st' h. run_handler b code h st') st hs)) = shell (fst st) \<and>
   this_element (fst (foldl (\<lambda>st' h. run_handler b code h st') st hs)) = this_element (fst st)"
  by (induction hs arbitrary: st) (simp_all add: run_handler_this)

lemma dispatch_this:
  "shell (fst (dispatch b ty code target st)) = shell (fst st) \<and>
   this_element (fst (dispatch b ty code target st)) = this_element (fst st)"
  by (simp add: dispatch_def foldl_run_handler_this)

lemma step_this:
  "shell (fst (step b x st)) = shell (fst st) \<and>
   (this_element (fst st) = Some e \<longrightarrow> this_element (fst (step b x st)) = Some e)"
  by (cases st; cases x)
     (simp_all add: render_this save_this merge_this onPaste_this renderSettings_this
        set_data_this dispatch_this)

lemma run_this:
  "shell (fst (run b xs st)) = shell (fst st) \<and>
   (this_element (fst st) = Some e \<longrightarrow> this_element (fst (run b xs st)) = Some e)"
proof (induction xs arbitrary: st)
  case Nil
  show ?case by simp
next
  case (Cons x xs)
  show ?case using Cons.IH [of "step b x st"] step_this [of b x st e] by simp
qed





subsection \<open>The constructor\<close>

lemma constructor_Inr:
  assumes "data p = Some d" and "config p = Some c" and "api p = Some a"
  shows "\<exists>this. constructor rq p pg = Inr (this, pg) \<and> this_data this = d \<and>
           this_element this = None \<and> this_config this = c \<and> this_api this = a \<and>
           this_readOnly this = readOnly p \<and>
           this_preserveBlank this = (if preserveBlank c \<noteq> JUndefined then preserveBlank c else JBool False) \<and>
           map name (this_tunesButtons this) = ALIGNMENTS \<and>
           block (this_CSS this) = styles_block a \<and>
           wrapper (this_CSS this) = js_of ''ce-paragraph'' \<and>
           settingsButtonActive (this_CSS this) = styles_settingsButtonActive a \<and>
           css_alignment (this_CSS this) =
              [(js_of ''left'', js_of ''ce-paragraph--left''),
               (js_of ''center'', js_of ''ce-paragraph--center''),
               (js_of ''right'', js_of ''ce-paragraph--right''),
               (js_of ''justify'', js_of ''ce-paragraph--justify'')]"
  using assms by (simp add: constructor_def set_data_simp ALIGNMENTS_def)

lemma constructor_InrD:
  assumes "constructor rq p pg = Inr st"
  shows "\<exists>d c a. data p = Some d \<and> config p = Some c \<and> api p = Some a"
  using assms by (simp add: constructor_def split: option.splits)

subsection \<open>The alignment\<close>

lemma onPaste_eq:
  "onPaste event this pg =
     (this\<lparr>this_data :=
       \<lparr>text = JStr (pasted_innerHTML event),
        alignment =
          (if pasted_textAlign event \<noteq> [] then JStr (pasted_textAlign event)
           else if truthy (defaultAlignment (this_config this))
                then defaultAlignment (this_config this)
                else JStr (js_of ''left''))\<rparr>\<rparr>,
      if this_element this = None then pg else hydrate pg)"
  by (simp add: onPaste_def set_data_simp js_or_def DEFAULT_ALIGNMENT_def)

lemma alignment_ok_left [simp]: "alignment_ok (JStr (js_of ''left''))"
  by (simp add: alignment_ok_def ALIGNMENTS_def)

lemma alignment_ok_JStr: "alignment_ok (JStr a) \<longleftrightarrow> a \<in> set ALIGNMENTS"
  by (auto simp: alignment_ok_def)

lemma strict_eq_JStr [simp]: "strict_eq v (JStr a) \<longleftrightarrow> v = JStr a"
  by (auto simp: strict_eq_def)

lemma tune_click_alignment_eq:
  "alignment (this_data (fst (snd (tune_click i els this pg)))) =
     (if i < length (this_tunesButtons this)
      then (if alignment (this_data this) = JStr (name (this_tunesButtons this ! i))
            then defaultAlignment (this_config this)
            else JStr (name (this_tunesButtons this ! i)))
      else alignment (this_data this))"
  by (simp add: tune_click_def tune_name_def refresh_tunes_this toggleTune_eq)

lemma aligned_shell:
  "shell this' = shell this \<Longrightarrow> alignment (this_data this') = alignment (this_data this) \<Longrightarrow>
   aligned this' = aligned this"
  unfolding aligned_def by (metis shell_fields(3) shell_fields(7))

lemma aligned_shell':
  "shell this' = shell this \<Longrightarrow> aligned this \<Longrightarrow> alignment_ok (alignment (this_data this')) \<Longrightarrow>
   aligned this'"
  unfolding aligned_def by (metis shell_fields(3) shell_fields(7))

lemma tune_click_aligned: "aligned this \<Longrightarrow> aligned (fst (snd (tune_click i els this pg)))"
proof (rule aligned_shell')
  assume a: "aligned this"
  show "shell (fst (snd (tune_click i els this pg))) = shell this"
    by (simp add: tune_click_this)
  show "aligned this" by (rule a)
  show "alignment_ok (alignment (this_data (fst (snd (tune_click i els this pg)))))"
    using a by (auto simp: tune_click_alignment_eq aligned_def alignment_ok_JStr)
qed

lemma run_handler_aligned: "aligned (fst st) \<Longrightarrow> aligned (fst (run_handler b code h st))"
  by (cases h) (simp_all add: run_handler_def tune_click_aligned)

lemma dispatch_aligned: "aligned (fst st) \<Longrightarrow> aligned (fst (dispatch b ty code target st))"
proof -
  have "aligned (fst st) \<Longrightarrow> aligned (fst (foldl (\<lambda>st' h. run_handler b code h st') st hs))" for hs
    by (induction hs arbitrary: st) (simp_all add: run_handler_aligned)
  then show "aligned (fst st) \<Longrightarrow> aligned (fst (dispatch b ty code target st))"
    by (simp add: dispatch_def)
qed

lemma step_aligned:
  assumes "aligned (fst st)" and "op_ok x"
  shows "aligned (fst (step b x st))"
proof (cases st)
  case (Pair this pg)
  show ?thesis
  proof (cases x)
    case Render
    then show ?thesis using assms Pair aligned_shell [of "fst (snd (render this pg))" this]
      by (simp add: render_this)
  next
    case (Save el)
    then show ?thesis using assms Pair aligned_shell [of "snd (save el this pg)" this]
      by (simp add: save_this)
  next
    case (Merge d)
    then show ?thesis using assms Pair aligned_shell [of "fst (snd (merge d this pg))" this]
      by (simp add: merge_this)
  next
    case (OnPaste event)
    then show ?thesis using assms Pair
      by (auto simp: onPaste_eq aligned_def alignment_ok_JStr ALIGNMENTS_def)
  next
    case RenderSettings
    then show ?thesis using assms Pair aligned_shell [of "fst (snd (renderSettings b this pg))" this]
      by (simp add: renderSettings_this)
  next
    case (SetData d)
    then show ?thesis using assms Pair
      by (auto simp: set_data_simp aligned_def split: option.splits)
  next
    case (Click el)
    then show ?thesis using assms Pair dispatch_aligned [of "(this, pg)"] by simp
  next
    case (KeyUp el code)
    then show ?thesis using assms Pair dispatch_aligned [of "(this, pg)"] by simp
  qed (use assms Pair in simp_all)
qed

lemma run_aligned:
  "aligned (fst st) \<Longrightarrow> \<forall>x\<in>set ops. op_ok x \<Longrightarrow> aligned (fst (run b ops st))"
  by (induction ops arbitrary: st) (simp_all add: step_aligned)

subsection \<open>What an operation leaves of an element\<close>

lemma update_element_simps [simp]:
  "dom (update_element e f pg) x = (if x = e then f (dom pg e) else dom pg x)"
  "dom_next (update_element e f pg) = dom_next pg"
  "raf_queue (update_element e f pg) = raf_queue pg"
  by (simp_all add: update_element_def)

lemma hydrate_simps [simp]:
  "dom (hydrate pg) = dom pg"
  "dom_next (hydrate pg) = dom_next pg"
  "raf_queue (hydrate pg) = Suc (raf_queue pg)"
  by (simp_all add: hydrate_def)

lemma createElement_simps [simp]:
  "fst (createElement pg) = dom_next pg"
  "dom (snd (createElement pg)) x = (if x = dom_next pg then new_element else dom pg x)"
  "dom_next (snd (createElement pg)) = Suc (dom_next pg)"
  "raf_queue (snd (createElement pg)) = raf_queue pg"
  by (simp_all add: createElement_def)

lemma stable_refl [simp]: "stable e pg pg"
  by (simp add: stable_def)

lemma stable_trans: "stable e pg pg1 \<Longrightarrow> stable e pg1 pg2 \<Longrightarrow> stable e pg pg2"
  by (simp add: stable_def)

lemma stable_less: "stable e pg pg1 \<Longrightarrow> e < dom_next pg \<Longrightarrow> e < dom_next pg1"
  by (simp add: stable_def)

lemma stable_hydrate [simp]: "stable e pg (hydrate pg') = stable e pg pg'"
  by (simp add: stable_def)

lemma stable_create: "stable e pg pg' \<Longrightarrow> e < dom_next pg' \<Longrightarrow> stable e pg (snd (createElement pg'))"
  by (simp add: stable_def)

lemma stable_set_innerHTML [simp]: "stable e pg (set_innerHTML b e' v pg') = stable e pg pg'"
  by (simp add: stable_def set_innerHTML_def)

lemma stable_classList_add [simp]: "stable e pg (snd (classList_add e' ts pg')) = stable e pg pg'"
  by (simp add: stable_def classList_add_pair)

lemma stable_classList_toggle [simp]: "stable e pg (snd (classList_toggle e' t force pg')) = stable e pg pg'"
  by (simp add: stable_def classList_toggle_pair)

lemma stable_appendChild [simp]: "stable e pg (appendChild e' c pg') = stable e pg pg'"
  by (simp add: stable_def appendChild_def)

lemma stable_addEventListener [simp]:
  "e \<noteq> e' \<Longrightarrow> stable e pg (addEventListener e' ty h pg') = stable e pg pg'"
  by (simp add: stable_def addEventListener_def)

lemma stable_refresh_tunes: "stable e pg0 pg \<Longrightarrow> stable e pg0 (snd (snd (refresh_tunes els i this pg)))"
proof (induction els arbitrary: i this pg)
  case Nil
  then show ?case by simp
next
  case (Cons el els)
  show ?case
    using Cons.prems
    by (simp add: get_data_pair case_prod_beta Cons.IH split: sum.splits option.splits)
qed

lemma stable_tune_click: "stable e pg0 pg \<Longrightarrow> stable e pg0 (snd (snd (tune_click i els this pg)))"
  by (simp add: tune_click_def stable_refresh_tunes split: sum.splits)

lemma stable_onKeyUp: "stable e pg0 pg \<Longrightarrow> stable e pg0 (snd (onKeyUp b code this pg))"
  by (simp add: onKeyUp_def split: option.splits)

lemma stable_run_handler: "stable e pg0 (snd st) \<Longrightarrow> stable e pg0 (snd (run_handler b code h st))"
  by (cases h) (simp_all add: run_handler_def stable_tune_click stable_onKeyUp)

lemma stable_dispatch: "stable e pg0 (snd st) \<Longrightarrow> stable e pg0 (snd (dispatch b ty code target st))"
proof -
  have "stable e pg0 (snd st) \<Longrightarrow> stable e pg0 (snd (foldl (\<lambda>st' h. run_handler b code h st') st hs))" for hs
    by (induction hs arbitrary: st) (simp_all add: stable_run_handler)
  then show "stable e pg0 (snd st) \<Longrightarrow> stable e pg0 (snd (dispatch b ty code target st))"
    by (simp add: dispatch_def)
qed

lemma stable_hydrate_callback [simp]: "stable e pg (hydrate_callback b this pg') = stable e pg pg'"
  by (simp add: hydrate_callback_def split: option.splits)

lemma stable_funpow_callback: "stable e pg ((hydrate_callback b this ^^ n) pg') = stable e pg pg'"
  by (induction n) simp_all

lemma stable_animation_frame: "stable e pg0 pg \<Longrightarrow> stable e pg0 (animation_frame b this pg)"
  by (simp add: animation_frame_def stable_funpow_callback) (simp add: stable_def)

lemma render_tunes_Cons:
  "render_tunes b w (t # ts) this pg =
     (let button = dom_next pg;
          pg1 = snd (createElement pg);
          pg2 = snd (classList_add button [js_of ''cdx-settings-button''] pg1);
          pg3 = set_innerHTML b button (icon t) pg2;
          this1 = this\<lparr>this_data := the_data this pg3\<rparr>;
          tk = to_string (settingsButtonActive (this_CSS this));
          f = strict_eq (JStr (name t))
                (js_or (alignment (this_data this)) (defaultAlignment (this_config this)));
          pg4 = snd (classList_toggle button tk f pg3);
          r = render_tunes b w ts this1 (appendChild w button pg4)
      in case fst (classList_add button [js_of ''cdx-settings-button''] pg1) of
           Some err \<Rightarrow> (Inl err, this, pg2)
         | None \<Rightarrow>
             (case fst (classList_toggle button tk f pg3) of
                Some err \<Rightarrow> (Inl err, this1, pg4)
              | None \<Rightarrow>
                  (case fst r of
                     Inl err \<Rightarrow> (Inl err, snd r)
                   | Inr bs \<Rightarrow> (Inr (button # bs), snd r))))"
  by (simp add: get_data_pair case_prod_beta Let_def split: option.splits sum.splits)

lemma render_tunes_page:
  "stable e pg0 pg \<Longrightarrow> e < dom_next pg \<Longrightarrow>
   stable e pg0 (snd (snd (render_tunes b w ts this pg))) \<and>
   (\<forall>bs. fst (render_tunes b w ts this pg) = Inr bs \<longrightarrow> (\<forall>x\<in>set bs. dom_next pg \<le> x))"
proof (induction ts arbitrary: this pg)
  case Nil
  then show ?case by simp
next
  case (Cons t ts)
  let ?button = "dom_next pg"
  let ?pg1 = "snd (createElement pg)"
  let ?pg2 = "snd (classList_add ?button [js_of ''cdx-settings-button''] ?pg1)"
  let ?pg3 = "set_innerHTML b ?button (icon t) ?pg2"
  let ?this1 = "this\<lparr>this_data := the_data this ?pg3\<rparr>"
  let ?tk = "to_string (settingsButtonActive (this_CSS this))"
  let ?f = "strict_eq (JStr (name t))
              (js_or (alignment (this_data this)) (defaultAlignment (this_config this)))"
  let ?pg4 = "snd (classList_toggle ?button ?tk ?f ?pg3)"
  let ?pg5 = "appendChild w ?button ?pg4"
  have s1: "stable e pg0 ?pg1" "e < dom_next ?pg1"
    using Cons.prems by (simp_all add: stable_create)
  then have s4: "stable e pg0 ?pg4" and s2: "stable e pg0 ?pg2" by simp_all
  have n5: "dom_next ?pg5 = Suc (dom_next pg)"
    by (simp add: appendChild_def classList_toggle_pair classList_add_pair set_innerHTML_def)
  have s5: "stable e pg0 ?pg5" "e < dom_next ?pg5"
    using s4 Cons.prems(2) n5 by simp_all
  note IH = Cons.IH [OF s5, of ?this1]
  have IH1: "stable e pg0 (snd (snd (render_tunes b w ts ?this1 ?pg5)))"
    using IH by simp
  have IH2: "\<forall>bs. fst (render_tunes b w ts ?this1 ?pg5) = Inr bs \<longrightarrow> (\<forall>x\<in>set bs. dom_next pg \<le> x)"
  proof (intro allI impI ballI)
    fix bs x
    assume "fst (render_tunes b w ts ?this1 ?pg5) = Inr bs" and "x \<in> set bs"
    then have "dom_next ?pg5 \<le> x" using IH by blast
    then show "dom_next pg \<le> x" using n5 by simp
  qed
  show ?case
    unfolding render_tunes_Cons Let_def
    using IH1 IH2 s2 s4 by (auto split: option.splits sum.splits)
qed

lemma dom_next_add_click_listeners [simp]:
  "dom_next (add_click_listeners els i rest pg) = dom_next pg"
  by (induction rest arbitrary: i pg) (simp_all add: addEventListener_def)

lemma stable_add_click_listeners:
  "e \<notin> set rest \<Longrightarrow> stable e pg0 pg \<Longrightarrow> stable e pg0 (add_click_listeners els i rest pg)"
  by (induction rest arbitrary: i pg) simp_all

lemma stable_renderSettings:
  assumes "e < dom_next pg"
  shows "stable e pg (snd (snd (renderSettings b this pg)))"
proof -
  let ?pg1 = "snd (createElement pg)"
  have s1: "stable e pg ?pg1" "e < dom_next ?pg1"
    using assms by (simp_all add: stable_create)
  note rt = render_tunes_page [OF s1, of b "dom_next pg" "this_tunesButtons this" this]
  show ?thesis
  proof (cases "fst (render_tunes b (dom_next pg) (this_tunesButtons this) this ?pg1)")
    case (Inl err)
    then show ?thesis using rt
      by (simp add: renderSettings_def case_prod_beta)
  next
    case (Inr els)
    then have "e \<notin> set els" using rt s1(2) by auto
    then show ?thesis using rt Inr
      by (simp add: renderSettings_def case_prod_beta stable_add_click_listeners)
  qed
qed

subsection \<open>The element of the instance\<close>

lemma check_tokens_single [simp]:
  "check_tokens [t] = (if t = [] then Some SyntaxError
                       else if list_ex ascii_white_space t then Some InvalidCharacterError else None)"
  by simp

lemma drawView_result:
  "drawView this pg = (Inr e, pg1) \<Longrightarrow>
     e = dom_next pg \<and> dom_next pg1 = Suc (dom_next pg) \<and> raf_queue pg1 = raf_queue pg \<and>
     contentEditable (dom pg1 e) = (if truthy (this_readOnly this) then CE_false else CE_true) \<and>
     listeners (dom pg1 e) = (if truthy (this_readOnly this) then [] else [(js_of ''keyup'', OnKeyUp)]) \<and>
     innerHTML (dom pg1 e) = []"
  by (auto simp: drawView_def case_prod_beta classList_add_pair addEventListener_def new_element_def
        Let_def split: option.splits if_splits)

lemma drawView_dom_next: "dom_next (snd (drawView this pg)) = Suc (dom_next pg)"
  by (simp add: drawView_def case_prod_beta classList_add_pair addEventListener_def
        Let_def split: option.splits if_splits)

lemma drawView_stable: "e < dom_next pg \<Longrightarrow> stable e pg (snd (drawView this pg))"
  by (simp add: drawView_def case_prod_beta classList_add_pair addEventListener_def stable_def
        Let_def split: option.splits if_splits)

lemma render_Some: "this_element this = Some e \<Longrightarrow> render this pg = (Inr e, this, hydrate pg)"
  by (simp add: render_def)

lemma render_None:
  "this_element this = None \<Longrightarrow>
   render this pg =
     (case drawView this pg of
        (Inl err, pg1) \<Rightarrow> (Inl err, this, pg1)
      | (Inr e, pg1) \<Rightarrow> (Inr e, this\<lparr>this_element := Some e\<rparr>, hydrate pg1))"
  by (simp add: render_def)

lemma render_first:
  assumes "this_element this = None" and "render this pg = (Inr e, this1, pg1)"
  shows "e = dom_next pg \<and> this1 = this\<lparr>this_element := Some e\<rparr> \<and>
         dom_next pg1 = Suc (dom_next pg) \<and> raf_queue pg1 = Suc (raf_queue pg) \<and>
         contentEditable (dom pg1 e) = (if truthy (this_readOnly this) then CE_false else CE_true) \<and>
         listeners (dom pg1 e) = (if truthy (this_readOnly this) then [] else [(js_of ''keyup'', OnKeyUp)]) \<and>
         innerHTML (dom pg1 e) = []"
proof -
  obtain r pg' where d: "drawView this pg = (r, pg')" by (cases "drawView this pg")
  with assms have r: "r = Inr e" "this1 = this\<lparr>this_element := Some e\<rparr>" "pg1 = hydrate pg'"
    by (auto simp: render_None split: sum.splits)
  have d': "drawView this pg = (Inr e, pg')" using d r by simp
  show ?thesis using drawView_result [OF d'] r by auto
qed

lemma step_element_other:
  "x \<noteq> Render \<Longrightarrow> this_element (fst (step b x st)) = this_element (fst st)"
  by (cases st; cases x)
     (simp_all add: save_this merge_this onPaste_this renderSettings_this set_data_this dispatch_this)

lemma step_stable:
  assumes "this_element (fst st) = Some e" and "e < dom_next (snd st)"
  shows "stable e (snd st) (snd (step b x st))"
proof (cases st)
  case (Pair this pg)
  show ?thesis
  proof (cases x)
    case Render
    then show ?thesis using assms Pair by (simp add: render_Some)
  next
    case (Merge d)
    then show ?thesis using Pair
      by (simp add: merge_def get_data_pair set_data_simp split: option.splits)
  next
    case (OnPaste event)
    then show ?thesis using Pair by (simp add: onPaste_eq)
  next
    case RenderSettings
    then show ?thesis using assms Pair by (simp add: stable_renderSettings)
  next
    case (SetData d)
    then show ?thesis using Pair by (simp add: set_data_simp)
  next
    case (Click el)
    then show ?thesis using Pair stable_dispatch [of e pg "(this, pg)"] by simp
  next
    case (KeyUp el code)
    then show ?thesis using Pair stable_dispatch [of e pg "(this, pg)"] by simp
  next
    case (UserInput el html)
    then show ?thesis using Pair by (simp add: stable_def)
  next
    case AnimationFrame
    then show ?thesis using Pair by (simp add: stable_animation_frame)
  qed (use Pair in simp_all)
qed

lemma step_view_ok:
  assumes "view_ok (this_readOnly (fst st)) st"
  shows "view_ok (this_readOnly (fst st)) (step b x st)"
proof (cases "this_element (fst st)")
  case None
  show ?thesis
  proof (cases "x = Render")
    case True
    obtain this pg where st: "st = (this, pg)" by (cases st)
    obtain r this1 pg1 where r: "render this pg = (r, this1, pg1)" by (cases "render this pg")
    show ?thesis
    proof (cases r)
      case (Inl err)
      then have "this1 = this" using r None st by (auto simp: render_None split: prod.splits sum.splits)
      then show ?thesis using True st r None by (simp add: view_ok_def)
    next
      case (Inr e)
      with r have r': "render this pg = (Inr e, this1, pg1)" by simp
      show ?thesis
        using render_first [OF None [unfolded st fst_conv] r'] True st r' by (auto simp: view_ok_def)
    qed
  next
    case False
    then show ?thesis using None step_element_other [of x b st] by (simp add: view_ok_def)
  qed
next
  case (Some e)
  then have lt: "e < dom_next (snd st)" using assms by (simp add: view_ok_def)
  have "this_element (fst (step b x st)) = Some e"
    using step_this [of b x st e] Some by simp
  then show ?thesis
    using step_stable [OF Some lt, of b x] assms Some by (simp add: view_ok_def stable_def)
qed

lemma step_readOnly: "this_readOnly (fst (step b x st)) = this_readOnly (fst st)"
  using step_this [of b x st] by (metis shell_fields(2))

lemma run_view_ok:
  "view_ok (this_readOnly (fst st)) st \<Longrightarrow> view_ok (this_readOnly (fst st)) (run b ops st)"
proof (induction ops arbitrary: st)
  case Nil
  then show ?case by simp
next
  case (Cons x xs)
  have "view_ok (this_readOnly (fst (step b x st))) (step b x st)"
    using step_view_ok [OF Cons.prems, of b x] by (simp add: step_readOnly)
  then have "view_ok (this_readOnly (fst (step b x st))) (run b xs (step b x st))"
    by (rule Cons.IH)
  then show ?case by (simp add: step_readOnly)
qed

subsection \<open>The example host\<close>

lemma example_constructor:
  "\<exists>this. constructor example_svg (example_params d c ro) pg = Inr (this, pg) \<and>
     this_data this = d \<and> this_element this = None \<and> this_config this = c \<and>
     this_api this = example_api \<and> this_readOnly this = ro \<and>
     map name (this_tunesButtons this) = ALIGNMENTS \<and>
     block (this_CSS this) = JStr (js_of ''cdx-block'') \<and>
     wrapper (this_CSS this) = js_of ''ce-paragraph'' \<and>
     settingsButtonActive (this_CSS this) = JStr (js_of ''cdx-settings-button--active'') \<and>
     css_alignment (this_CSS this) =
        [(js_of ''left'', js_of ''ce-paragraph--left''),
         (js_of ''center'', js_of ''ce-paragraph--center''),
         (js_of ''right'', js_of ''ce-paragraph--right''),
         (js_of ''justify'', js_of ''ce-paragraph--justify'')]"
  using constructor_Inr [of "example_params d c ro" d c example_api example_svg pg]
  by (auto simp: example_params_def example_api_def)

lemma no_space [simp]:
  "\<not> list_ex ascii_white_space (js_of ''ce-paragraph'')"
  "\<not> list_ex ascii_white_space (js_of ''cdx-block'')"
  "\<not> list_ex ascii_white_space (js_of ''undefined'')"
  "\<not> list_ex ascii_white_space (js_of ''ce-paragraph--left'')"
  "\<not> list_ex ascii_white_space (js_of ''ce-paragraph--center'')"
  "\<not> list_ex ascii_white_space (js_of ''ce-paragraph--right'')"
  "\<not> list_ex ascii_white_space (js_of ''ce-paragraph--justify'')"
  by (simp_all add: js_of_def ascii_white_space_def)

lemma render_returns:
  assumes "this_element this = None"
      and "check_tokens
             [wrapper (this_CSS this), to_string (block (this_CSS this)),
              property_token (css_alignment_get (this_CSS this) (alignment (this_data this)))] = None"
  shows "\<exists>pg1. render this pg = (Inr (dom_next pg), this\<lparr>this_element := Some (dom_next pg)\<rparr>, pg1)"
proof (cases "truthy (this_readOnly this)")
  case True
  then show ?thesis using assms
    by (simp add: render_None drawView_def case_prod_beta classList_add_pair Let_def)
next
  case False
  then show ?thesis using assms
    by (simp add: render_None drawView_def case_prod_beta classList_add_pair Let_def)
qed

lemma example_tokens:
  assumes "css_alignment css =
        [(js_of ''left'', js_of ''ce-paragraph--left''),
         (js_of ''center'', js_of ''ce-paragraph--center''),
         (js_of ''right'', js_of ''ce-paragraph--right''),
         (js_of ''justify'', js_of ''ce-paragraph--justify'')]"
      and "v \<in> {JUndefined, JStr (js_of ''left''), JStr (js_of ''center''),
             JStr (js_of ''right''), JStr (js_of ''justify'')}"
  shows "check_tokens [js_of ''ce-paragraph'', js_of ''cdx-block'',
           property_token (css_alignment_get css v)] = None"
proof -
  have "property_token (css_alignment_get css v) \<in>
      {js_of ''undefined'', js_of ''ce-paragraph--left'', js_of ''ce-paragraph--center'',
       js_of ''ce-paragraph--right'', js_of ''ce-paragraph--justify''}"
    using assms(2) unfolding css_alignment_get_def assms(1) object_prototype_names_def
    by (elim insertE emptyE) simp_all
  then show ?thesis
    by (elim insertE emptyE) simp_all
qed

lemma example_render:
  assumes "this_element this = None"
      and "block (this_CSS this) = JStr (js_of ''cdx-block'')"
      and "wrapper (this_CSS this) = js_of ''ce-paragraph''"
      and "css_alignment (this_CSS this) =
        [(js_of ''left'', js_of ''ce-paragraph--left''),
         (js_of ''center'', js_of ''ce-paragraph--center''),
         (js_of ''right'', js_of ''ce-paragraph--right''),
         (js_of ''justify'', js_of ''ce-paragraph--justify'')]"
      and "alignment (this_data this) \<in> {JUndefined, JStr (js_of ''left''), JStr (js_of ''center''),
             JStr (js_of ''right''), JStr (js_of ''justify'')}"
  shows "\<exists>pg1. render this pg = (Inr (dom_next pg), this\<lparr>this_element := Some (dom_next pg)\<rparr>, pg1)"
proof (rule render_returns [OF assms(1)])
  show "check_tokens
     [wrapper (this_CSS this), to_string (block (this_CSS this)),
      property_token (css_alignment_get (this_CSS this) (alignment (this_data this)))] = None"
    using example_tokens [OF assms(4) assms(5)] assms(2) assms(3) by simp
qed

subsection \<open>Events, frames and merge\<close>

lemma dispatch_no_listeners:
  "listeners (dom (snd st) target) = [] \<Longrightarrow> dispatch b ty code target st = st"
  by (simp add: dispatch_def)

lemma animation_frame_innerHTML:
  assumes "this_element this = Some e" and "0 < raf_queue pg"
  shows "innerHTML (dom (animation_frame b this pg) e) =
           (if html_string (js_or (text (this_data this)) (JStr [])) = [] then []
            else serialize_html b (html_string (js_or (text (this_data this)) (JStr []))))"
proof -
  obtain n where n: "raf_queue pg = Suc n" using assms(2) by (cases "raf_queue pg") auto
  show ?thesis
    using assms(1) by (simp add: animation_frame_def n hydrate_callback_def set_innerHTML_def)
qed

lemma html_string_text [simp]: "html_string (js_or (JStr t) (JStr [])) = t"
  by (simp add: html_string_def js_or_def)

lemma merge_Some:
  "merge (Some d) this pg =
     (None,
      this\<lparr>this_data := \<lparr>text = js_add (text (the_data this pg)) (text d),
                           alignment = alignment (this_data this)\<rparr>\<rparr>,
      if this_element this = None then pg else hydrate pg)"
  by (simp add: merge_def get_data_pair set_data_simp)

lemma js_add_strings [simp]: "js_add (JStr a) (JStr t) = JStr (a @ t)"
  by (simp add: js_add_def)

subsection \<open>The buttons of the settings\<close>

lemma step_stable_any:
  assumes "e < dom_next (snd st)"
  shows "stable e (snd st) (snd (step b x st))"
proof (cases st)
  case (Pair this pg)
  show ?thesis
  proof (cases x)
    case Render
    then show ?thesis using assms Pair drawView_stable [of e pg this]
      by (cases "drawView this pg")
         (auto simp: render_def split: option.splits sum.splits)
  next
    case (Merge d)
    then show ?thesis using Pair
      by (simp add: merge_def get_data_pair set_data_simp split: option.splits)
  next
    case (OnPaste event)
    then show ?thesis using Pair by (simp add: onPaste_eq)
  next
    case RenderSettings
    then show ?thesis using assms Pair by (simp add: stable_renderSettings)
  next
    case (SetData d)
    then show ?thesis using Pair by (simp add: set_data_simp)
  next
    case (Click el)
    then show ?thesis using Pair stable_dispatch [of e pg "(this, pg)"] by simp
  next
    case (KeyUp el code)
    then show ?thesis using Pair stable_dispatch [of e pg "(this, pg)"] by simp
  next
    case (UserInput el html)
    then show ?thesis using Pair by (simp add: stable_def)
  next
    case AnimationFrame
    then show ?thesis using Pair by (simp add: stable_animation_frame)
  qed (use Pair in simp_all)
qed

lemma run_stable_any: "e < dom_next (snd st) \<Longrightarrow> stable e (snd st) (snd (run b ops st))"
proof (induction ops arbitrary: st)
  case Nil
  show ?case by simp
next
  case (Cons x xs)
  have s: "stable e (snd st) (snd (step b x st))" using Cons.prems by (rule step_stable_any)
  then have "e < dom_next (snd (step b x st))" using Cons.prems by (rule stable_less)
  then have "stable e (snd (step b x st)) (snd (run b xs (step b x st)))" by (rule Cons.IH)
  with s show ?case by (simp add: stable_trans)
qed

lemma render_tunes_buttons:
  assumes "w < dom_next pg" and "render_tunes b w ts this pg = (Inr bs, this', pg')"
  shows "length bs = length ts \<and> distinct bs \<and>
         (\<forall>x\<in>set bs. dom_next pg \<le> x \<and> x < dom_next pg') \<and>
         dom_next pg' = dom_next pg + length ts \<and>
         children (dom pg' w) = children (dom pg w) @ bs \<and>
         (\<forall>x\<in>set bs. listeners (dom pg' x) = [])"
  using assms
proof (induction ts arbitrary: this pg bs this' pg')
  case Nil
  then show ?case by simp
next
  case (Cons t ts)
  let ?button = "dom_next pg"
  let ?pg1 = "snd (createElement pg)"
  let ?pg2 = "snd (classList_add ?button [js_of ''cdx-settings-button''] ?pg1)"
  let ?pg3 = "set_innerHTML b ?button (icon t) ?pg2"
  let ?this1 = "this\<lparr>this_data := the_data this ?pg3\<rparr>"
  let ?tk = "to_string (settingsButtonActive (this_CSS this))"
  let ?f = "strict_eq (JStr (name t))
              (js_or (alignment (this_data this)) (defaultAlignment (this_config this)))"
  let ?pg4 = "snd (classList_toggle ?button ?tk ?f ?pg3)"
  let ?pg5 = "appendChild w ?button ?pg4"
  have n5: "dom_next ?pg5 = Suc (dom_next pg)"
    by (simp add: appendChild_def classList_toggle_pair classList_add_pair set_innerHTML_def)
  have w5: "w < dom_next ?pg5" using Cons.prems(1) n5 by simp
  have ne: "w \<noteq> ?button" using Cons.prems(1) by simp
  have ch5: "children (dom ?pg5 w) = children (dom pg w) @ [?button]"
    using ne by (simp add: appendChild_def classList_toggle_pair classList_add_pair set_innerHTML_def)
  have l5: "listeners (dom ?pg5 ?button) = []"
    using ne by (simp add: appendChild_def classList_toggle_pair classList_add_pair set_innerHTML_def
          new_element_def)
  obtain r1 t1 p1 where R: "render_tunes b w ts ?this1 ?pg5 = (r1, t1, p1)"
    by (cases "render_tunes b w ts ?this1 ?pg5")
  have "\<exists>bs'. r1 = Inr bs' \<and> bs = ?button # bs' \<and> t1 = this' \<and> p1 = pg'"
    using Cons.prems(2) unfolding render_tunes_Cons Let_def R
    by (cases r1) (simp_all split: option.splits)
  then obtain bs' where r: "render_tunes b w ts ?this1 ?pg5 = (Inr bs', this', pg')" and bs: "bs = ?button # bs'"
    using R by auto
  note IH = Cons.IH [OF w5 r]
  have st: "stable ?button ?pg5 (snd (snd (render_tunes b w ts ?this1 ?pg5)))"
    using render_tunes_page [of ?button ?pg5 ?pg5 b w ts ?this1] n5 by simp
  have lb: "listeners (dom pg' ?button) = []"
    using st r l5 by (simp add: stable_def)
  have "?button \<notin> set bs'" using IH n5 by auto
  then show ?case using IH bs n5 ch5 lb by auto
qed

lemma add_click_listeners_other:
  "x \<notin> set rest \<Longrightarrow> dom (add_click_listeners els i rest pg) x = dom pg x"
  by (induction rest arbitrary: i pg) (simp_all add: addEventListener_def)

lemma add_click_listeners_button:
  assumes "distinct rest" and "\<forall>x\<in>set rest. listeners (dom pg x) = []" and "j < length rest"
  shows "listeners (dom (add_click_listeners els i rest pg) (rest ! j)) =
           [(js_of ''click'', TuneClick (i + j) els)]"
  using assms
proof (induction rest arbitrary: i j pg)
  case Nil
  then show ?case by simp
next
  case (Cons el rest)
  let ?pg1 = "addEventListener el (js_of ''click'') (TuneClick i els) pg"
  show ?case
  proof (cases j)
    case 0
    have "el \<notin> set rest" using Cons.prems(1) by simp
    then have "dom (add_click_listeners els (Suc i) rest ?pg1) el = dom ?pg1 el"
      by (rule add_click_listeners_other)
    then show ?thesis using 0 Cons.prems(2) by (simp add: addEventListener_def)
  next
    case (Suc k)
    have d: "distinct rest" using Cons.prems(1) by simp
    have l: "\<forall>x\<in>set rest. listeners (dom ?pg1 x) = []"
      using Cons.prems(1,2) by (auto simp: addEventListener_def)
    have k: "k < length rest" using Cons.prems(3) Suc by simp
    show ?thesis using Cons.IH [OF d l k, of "Suc i"] Suc by simp
  qed
qed

lemma renderSettings_eq:
  "renderSettings b this pg =
     (case fst (render_tunes b (dom_next pg) (this_tunesButtons this) this (snd (createElement pg))) of
        Inl err \<Rightarrow>
          (Inl err, snd (render_tunes b (dom_next pg) (this_tunesButtons this) this (snd (createElement pg))))
      | Inr els \<Rightarrow>
          (Inr (dom_next pg),
           fst (snd (render_tunes b (dom_next pg) (this_tunesButtons this) this (snd (createElement pg)))),
           add_click_listeners els 0 els
             (snd (snd (render_tunes b (dom_next pg) (this_tunesButtons this) this (snd (createElement pg)))))))"
  by (simp add: renderSettings_def case_prod_beta split: sum.splits)

lemma renderSettings_buttons:
  assumes "renderSettings b this pg = (Inr w, this1, pg1)" and "i < length (this_tunesButtons this)"
  shows "listeners (dom pg1 (children (dom pg1 w) ! i)) =
           [(js_of ''click'', TuneClick i (children (dom pg1 w)))] \<and>
         children (dom pg1 w) ! i < dom_next pg1"
proof -
  let ?pg0 = "snd (createElement pg)"
  obtain r1 this' pg' where R: "render_tunes b (dom_next pg) (this_tunesButtons this) this ?pg0 = (r1, this', pg')"
    by (cases "render_tunes b (dom_next pg) (this_tunesButtons this) this ?pg0")
  have "\<exists>els. r1 = Inr els \<and> w = dom_next pg \<and> pg1 = add_click_listeners els 0 els pg'"
    using assms(1) unfolding renderSettings_eq R by (cases r1) simp_all
  then obtain els where rt: "render_tunes b (dom_next pg) (this_tunesButtons this) this ?pg0 = (Inr els, this', pg')"
      and w: "w = dom_next pg" and pg1: "pg1 = add_click_listeners els 0 els pg'"
    using R by auto
  have lt: "dom_next pg < dom_next ?pg0" by simp
  note rb = render_tunes_buttons [OF lt rt]
  have wn: "w \<notin> set els" using rb w by auto
  have ch: "children (dom pg1 w) = els"
    using rb wn by (simp add: pg1 w add_click_listeners_other new_element_def)
  have di: "distinct els" using rb by simp
  have i: "i < length els" using rb assms(2) by simp
  have l0: "\<forall>x\<in>set els. listeners (dom pg' x) = []" using rb by simp
  have "els ! i \<in> set els" using i by simp
  then have "els ! i < dom_next pg'" using rb by blast
  then have "els ! i < dom_next pg1" using pg1 by simp
  then show ?thesis
    using add_click_listeners_button [OF di l0 i, of els 0] ch pg1 by simp
qed

lemma render_tunes_returns:
  assumes "check_tokens [to_string (settingsButtonActive (this_CSS this))] = None"
  shows "\<exists>bs this' pg'. render_tunes b w ts this pg = (Inr bs, this', pg')"
  using assms
proof (induction ts arbitrary: this pg)
  case Nil
  show ?case by simp
next
  case (Cons t ts)
  let ?button = "dom_next pg"
  let ?pg1 = "snd (createElement pg)"
  let ?pg2 = "snd (classList_add ?button [js_of ''cdx-settings-button''] ?pg1)"
  let ?pg3 = "set_innerHTML b ?button (icon t) ?pg2"
  let ?this1 = "this\<lparr>this_data := the_data this ?pg3\<rparr>"
  let ?tk = "to_string (settingsButtonActive (this_CSS this))"
  let ?f = "strict_eq (JStr (name t))
              (js_or (alignment (this_data this)) (defaultAlignment (this_config this)))"
  let ?pg4 = "snd (classList_toggle ?button ?tk ?f ?pg3)"
  let ?pg5 = "appendChild w ?button ?pg4"
  have c1: "check_tokens [to_string (settingsButtonActive (this_CSS ?this1))] = None"
    using Cons.prems by simp
  obtain bs this' pg' where r: "render_tunes b w ts ?this1 ?pg5 = (Inr bs, this', pg')"
    using Cons.IH [OF c1] by blast
  have k: "check_tokens [js_of ''cdx-settings-button''] = None"
    by (simp add: js_of_def ascii_white_space_def)
  show ?case
    unfolding render_tunes_Cons Let_def
    using r Cons.prems k by (simp add: classList_add_pair classList_toggle_pair del: check_tokens.simps check_tokens_single)
qed

lemma renderSettings_returns:
  assumes "check_tokens [to_string (settingsButtonActive (this_CSS this))] = None"
  shows "\<exists>this1 pg1. renderSettings b this pg = (Inr (dom_next pg), this1, pg1)"
proof -
  obtain bs this' pg' where
    "render_tunes b (dom_next pg) (this_tunesButtons this) this (snd (createElement pg)) = (Inr bs, this', pg')"
    using render_tunes_returns [OF assms] by blast
  then show ?thesis unfolding renderSettings_eq by simp
qed

lemma dispatch_single:
  "listeners (dom (snd st) target) = [(ty, h)] \<Longrightarrow>
   dispatch b ty code target st = run_handler b code h st"
  by (simp add: dispatch_def)

lemma check_tokens_None_iff: "check_tokens ts = None \<longleftrightarrow> (\<forall>t\<in>set ts. valid_token t)"
  by (induction ts) (auto simp: valid_token_def)

lemma tokens_ok_shell: "shell this' = shell this \<Longrightarrow> tokens_ok this' = tokens_ok this"
  unfolding tokens_ok_def by (metis shell_fields(4) shell_fields(7))

lemma tunes_shell: "shell this' = shell this \<Longrightarrow> this_tunesButtons this' = this_tunesButtons this"
  by (metis shell_fields(7))

lemma listeners_ok_update:
  "(\<And>x. listeners (f x) = listeners x) \<Longrightarrow>
   listeners_ok n r (update_element e f pg) = listeners_ok n r pg"
  by (auto simp: listeners_ok_def)

lemma listeners_ok_hydrate [simp]: "listeners_ok n r (hydrate pg) = listeners_ok n r pg"
  by (simp add: listeners_ok_def)

lemma listeners_ok_raf [simp]: "listeners_ok n r (pg\<lparr>raf_queue := q\<rparr>) = listeners_ok n r pg"
  by (simp add: listeners_ok_def)

lemma listeners_ok_set_innerHTML [simp]:
  "listeners_ok n r (set_innerHTML b e v pg) = listeners_ok n r pg"
  by (simp add: set_innerHTML_def listeners_ok_update)

lemma listeners_ok_classList_add [simp]:
  "listeners_ok n r (snd (classList_add e ts pg)) = listeners_ok n r pg"
  by (simp add: classList_add_pair listeners_ok_update)

lemma listeners_ok_classList_toggle [simp]:
  "listeners_ok n r (snd (classList_toggle e t force pg)) = listeners_ok n r pg"
  by (simp add: classList_toggle_pair listeners_ok_update)

lemma listeners_ok_appendChild [simp]:
  "listeners_ok n r (appendChild e c pg) = listeners_ok n r pg"
  by (simp add: appendChild_def listeners_ok_update)

lemma listeners_ok_create: "listeners_ok n r pg \<Longrightarrow> listeners_ok n r (snd (createElement pg))"
  by (simp add: listeners_ok_def new_element_def)

lemma listeners_ok_addEventListener:
  "listeners_ok n r pg \<Longrightarrow> listener_ok n r (ty, h) \<Longrightarrow>
   listeners_ok n r (addEventListener e ty h pg)"
  by (simp add: listeners_ok_def addEventListener_def)

lemma listener_ok_mono: "listener_ok n r l \<Longrightarrow> listener_ok n True l"
  by (simp add: listener_ok_def split: handler.splits)

lemma listeners_ok_mono: "listeners_ok n r pg \<Longrightarrow> listeners_ok n True pg"
  unfolding listeners_ok_def list_all_iff by (blast intro: listener_ok_mono)

lemma listeners_ok_refresh_tunes [simp]:
  "listeners_ok n r (snd (snd (refresh_tunes els i this pg))) = listeners_ok n r pg"
proof (induction els arbitrary: i this pg)
  case Nil
  show ?case by simp
next
  case (Cons el els)
  show ?case
    by (simp add: get_data_pair case_prod_beta Cons.IH split: sum.splits option.splits)
qed

lemma listeners_ok_tune_click [simp]:
  "listeners_ok n r (snd (snd (tune_click i els this pg))) = listeners_ok n r pg"
  by (simp add: tune_click_def split: sum.splits)

lemma listeners_ok_onKeyUp [simp]:
  "listeners_ok n r (snd (onKeyUp b code this pg)) = listeners_ok n r pg"
  by (simp add: onKeyUp_def split: option.splits)

lemma listeners_ok_run_handler [simp]:
  "listeners_ok n r (snd (run_handler b code h st)) = listeners_ok n r (snd st)"
  by (cases h) (simp_all add: run_handler_def)

lemma listeners_ok_hydrate_callback [simp]:
  "listeners_ok n r (hydrate_callback b this pg) = listeners_ok n r pg"
  by (simp add: hydrate_callback_def split: option.splits)

lemma listeners_ok_funpow_callback [simp]:
  "listeners_ok n r ((hydrate_callback b this ^^ k) pg) = listeners_ok n r pg"
  by (induction k) simp_all

lemma listeners_ok_animation_frame [simp]:
  "listeners_ok n r (animation_frame b this pg) = listeners_ok n r pg"
  by (simp add: animation_frame_def)

lemma listeners_ok_render_tunes:
  "listeners_ok n r pg \<Longrightarrow> listeners_ok n r (snd (snd (render_tunes b w ts this pg)))"
proof (induction ts arbitrary: this pg)
  case Nil
  then show ?case by simp
next
  case (Cons t ts)
  have c: "listeners_ok n r (snd (createElement pg))"
    using Cons.prems by (rule listeners_ok_create)
  show ?case
    unfolding render_tunes_Cons Let_def
    using c by (auto split: option.splits sum.splits intro!: Cons.IH)
qed

lemma listeners_ok_add_click_listeners:
  "listeners_ok n r pg \<Longrightarrow> length els \<le> n \<Longrightarrow> i + length rest \<le> n \<Longrightarrow>
   listeners_ok n r (add_click_listeners els i rest pg)"
proof (induction rest arbitrary: i pg)
  case Nil
  then show ?case by simp
next
  case (Cons el rest)
  have "listener_ok n r (js_of ''click'', TuneClick i els)"
    using Cons.prems by (simp add: listener_ok_def)
  then have "listeners_ok n r (addEventListener el (js_of ''click'') (TuneClick i els) pg)"
    using Cons.prems(1) by (simp add: listeners_ok_addEventListener)
  then show ?case using Cons.IH [of _ "Suc i"] Cons.prems by simp
qed

lemma listeners_ok_renderSettings:
  assumes "listeners_ok n r pg" and "n = length (this_tunesButtons this)"
  shows "listeners_ok n r (snd (snd (renderSettings b this pg)))"
proof -
  let ?pg0 = "snd (createElement pg)"
  let ?R = "render_tunes b (dom_next pg) (this_tunesButtons this) this ?pg0"
  have l0: "listeners_ok n r ?pg0" using assms(1) by (rule listeners_ok_create)
  have l1: "listeners_ok n r (snd (snd ?R))" using l0 by (rule listeners_ok_render_tunes)
  show ?thesis
  proof (cases "fst ?R")
    case (Inl err)
    then show ?thesis using l1 unfolding renderSettings_eq by simp
  next
    case (Inr els)
    then have R: "?R = (Inr els, fst (snd ?R), snd (snd ?R))" by (metis prod.collapse)
    have lt: "dom_next pg < dom_next ?pg0" by simp
    have len: "length els = n" using render_tunes_buttons [OF lt R] assms(2) by simp
    show ?thesis
      using Inr l1 len unfolding renderSettings_eq
      by (simp add: listeners_ok_add_click_listeners)
  qed
qed

lemma listeners_ok_drawView:
  "listeners_ok n r pg \<Longrightarrow> listeners_ok n True (snd (drawView this pg))"
proof -
  assume "listeners_ok n r pg"
  then have "listeners_ok n True (snd (createElement pg))"
    by (intro listeners_ok_create listeners_ok_mono)
  moreover have "listener_ok n True (js_of ''keyup'', OnKeyUp)" by (simp add: listener_ok_def)
  ultimately show ?thesis
    by (simp add: drawView_def case_prod_beta Let_def listeners_ok_update
          listeners_ok_addEventListener split: option.splits)
qed

lemma raf_queue_render_tunes [simp]:
  "raf_queue (snd (snd (render_tunes b w ts this pg))) = raf_queue pg"
proof (induction ts arbitrary: this pg)
  case Nil
  show ?case by simp
next
  case (Cons t ts)
  show ?case
    unfolding render_tunes_Cons Let_def
    by (simp add: Cons.IH classList_add_pair classList_toggle_pair set_innerHTML_def appendChild_def
          split: option.splits sum.splits)
qed

lemma raf_queue_add_click_listeners [simp]:
  "raf_queue (add_click_listeners els i rest pg) = raf_queue pg"
  by (induction rest arbitrary: i pg) (simp_all add: addEventListener_def)

lemma raf_queue_renderSettings [simp]:
  "raf_queue (snd (snd (renderSettings b this pg))) = raf_queue pg"
  unfolding renderSettings_eq by (simp split: sum.splits)

lemma tokens_ok_data [simp]: "tokens_ok (this\<lparr>this_data := d\<rparr>) = tokens_ok this"
  by (simp add: tokens_ok_def)

lemma tokens_ok_element [simp]: "tokens_ok (this\<lparr>this_element := e\<rparr>) = tokens_ok this"
  by (simp add: tokens_ok_def)

lemma tune_token_ok:
  assumes "tokens_ok this" and "i < length (this_tunesButtons this)"
  shows "valid_token (property_token (css_alignment_get (this_CSS this)
           (JStr (name (this_tunesButtons this ! i)))))"
proof -
  let ?nm = "name (this_tunesButtons this ! i)"
  have "this_tunesButtons this ! i \<in> set (this_tunesButtons this)" using assms(2) by simp
  then have "?nm \<in> fst ` set (css_alignment (this_CSS this))"
    using assms(1) by (simp add: tokens_ok_def)
  then obtain c where c: "map_of (css_alignment (this_CSS this)) ?nm = Some c"
    by (metis map_of_eq_None_iff not_Some_eq)
  then have "(?nm, c) \<in> set (css_alignment (this_CSS this))" by (rule map_of_SomeD)
  then have "valid_token c" using assms(1) by (auto simp: tokens_ok_def)
  then show ?thesis using c by (simp add: css_alignment_get_def)
qed

lemma view_token_ok:
  assumes "tokens_ok this" and "to_string v \<notin> set object_prototype_names"
  shows "valid_token (property_token (css_alignment_get (this_CSS this) v))"
proof (cases "map_of (css_alignment (this_CSS this)) (to_string v)")
  case None
  then show ?thesis using assms(2)
    by (simp add: css_alignment_get_def valid_token_def js_of_def ascii_white_space_def)
next
  case (Some c)
  then have "(to_string v, c) \<in> set (css_alignment (this_CSS this))" by (rule map_of_SomeD)
  then have "valid_token c" using assms(1) by (auto simp: tokens_ok_def)
  then show ?thesis using Some by (simp add: css_alignment_get_def)
qed

lemma refresh_tunes_no_error:
  assumes "tokens_ok this" and "this_element this \<noteq> None"
      and "i + length els \<le> length (this_tunesButtons this)"
  shows "fst (refresh_tunes els i this pg) = None"
  using assms
proof (induction els arbitrary: i this pg)
  case Nil
  show ?case by simp
next
  case (Cons el els)
  have i: "i < length (this_tunesButtons this)" using Cons.prems(3) by simp
  have t1: "valid_token (to_string (settingsButtonActive (this_CSS this)))"
    using Cons.prems(1) by (simp add: tokens_ok_def)
  note t2 = tune_token_ok [OF Cons.prems(1) i]
  obtain e where e: "this_element this = Some e" using Cons.prems(2) by auto
  have IH: "fst (refresh_tunes els (Suc i) (this\<lparr>this_data := d\<rparr>) pg') = None" for d pg'
    using Cons.IH [of "this\<lparr>this_data := d\<rparr>" "Suc i" pg'] Cons.prems by simp
  show ?case
    using i t1 t2 e IH
    by (simp add: tune_name_def get_data_pair classList_toggle_pair valid_token_def)
qed

lemma tune_click_no_error:
  assumes "tokens_ok this" and "this_element this \<noteq> None"
      and "i < length (this_tunesButtons this)" and "length els \<le> length (this_tunesButtons this)"
  shows "fst (tune_click i els this pg) = None"
  using assms refresh_tunes_no_error [of "toggleTune (JStr (name (this_tunesButtons this ! i))) this pg" 0 els pg]
  by (simp add: tune_click_def tune_name_def toggleTune_eq)

lemma onKeyUp_no_error: "this_element this \<noteq> None \<Longrightarrow> fst (onKeyUp b code this pg) = None"
  by (auto simp: onKeyUp_def)

lemma handler_no_error:
  assumes "tokens_ok (fst st)" and "this_element (fst st) \<noteq> None"
      and "handler_fine (length (this_tunesButtons (fst st))) h"
  shows "handler_error b code h st = None"
  using assms
  by (cases h) (simp_all add: handler_error_def handler_fine_def onKeyUp_no_error tune_click_no_error)

lemma dispatch_no_error:
  assumes "tokens_ok (fst st)" and "this_element (fst st) \<noteq> None"
      and "\<forall>h\<in>set hs. handler_fine (length (this_tunesButtons (fst st))) h"
  shows "dispatch_errors b code hs st = []"
  using assms
proof (induction hs arbitrary: st)
  case Nil
  show ?case by simp
next
  case (Cons h hs)
  note rt = run_handler_this [of b code h st]
  have s: "shell (fst (run_handler b code h st)) = shell (fst st)" using rt by simp
  have 1: "tokens_ok (fst (run_handler b code h st))"
    using tokens_ok_shell [OF s] Cons.prems(1) by simp
  have 2: "this_element (fst (run_handler b code h st)) \<noteq> None"
    using rt Cons.prems(2) by simp
  have 3: "\<forall>h'\<in>set hs. handler_fine (length (this_tunesButtons (fst (run_handler b code h st)))) h'"
    using tunes_shell [OF s] Cons.prems(3) by simp
  have "handler_error b code h st = None"
    using handler_no_error [OF Cons.prems(1,2)] Cons.prems(3) by simp
  then show ?case using Cons.IH [OF 1 2 3] by simp
qed

lemma raf_queue_refresh_tunes [simp]:
  "raf_queue (snd (snd (refresh_tunes els i this pg))) = raf_queue pg"
proof (induction els arbitrary: i this pg)
  case Nil
  show ?case by simp
next
  case (Cons el els)
  show ?case
    by (simp add: get_data_pair case_prod_beta classList_toggle_pair Cons.IH
          split: sum.splits option.splits)
qed

lemma raf_queue_run_handler [simp]:
  "raf_queue (snd (run_handler b code h st)) = raf_queue (snd st)"
  by (cases h)
     (simp_all add: run_handler_def tune_click_def onKeyUp_def set_innerHTML_def
        split: sum.splits option.splits)

lemma foldl_run_handler_page:
  "listeners_ok n r (snd (foldl (\<lambda>st' h. run_handler b code h st') st hs)) = listeners_ok n r (snd st) \<and>
   raf_queue (snd (foldl (\<lambda>st' h. run_handler b code h st') st hs)) = raf_queue (snd st)"
  by (induction hs arbitrary: st) simp_all

lemma dispatch_page:
  "listeners_ok n r (snd (dispatch b ty code target st)) = listeners_ok n r (snd st) \<and>
   raf_queue (snd (dispatch b ty code target st)) = raf_queue (snd st)"
  by (simp add: dispatch_def foldl_run_handler_page)

lemma dispatch_well_formed: "well_formed st \<Longrightarrow> well_formed (dispatch b ty code target st)"
proof -
  assume w: "well_formed st"
  note d = dispatch_this [of b ty code target st]
  have s: "shell (fst (dispatch b ty code target st)) = shell (fst st)" using d by simp
  show ?thesis
    using w d dispatch_page [of _ _ b ty code target st] tokens_ok_shell [OF s] tunes_shell [OF s]
    by (simp add: well_formed_def)
qed

lemma drawView_returns:
  assumes "tokens_ok this" and "to_string (alignment (this_data this)) \<notin> set object_prototype_names"
  shows "fst (drawView this pg) = Inr (dom_next pg)"
proof -
  have 1: "valid_token (wrapper (this_CSS this))" "valid_token (to_string (block (this_CSS this)))"
    using assms(1) by (simp_all add: tokens_ok_def)
  note 3 = view_token_ok [OF assms]
  have "check_tokens
          [wrapper (this_CSS this), to_string (block (this_CSS this)),
           property_token (css_alignment_get (this_CSS this) (alignment (this_data this)))] = None"
    using 1 3 by (simp add: valid_token_def)
  then show ?thesis
    by (simp add: drawView_def case_prod_beta classList_add_pair Let_def)
qed

lemma render_well_formed:
  assumes "well_formed (this, pg)" and "normal_op this Render"
  shows "fst (render this pg) = Inr (case this_element this of None \<Rightarrow> dom_next pg | Some e \<Rightarrow> e) \<and>
         well_formed (snd (render this pg))"
proof (cases "this_element this")
  case (Some e)
  then show ?thesis using assms(1) by (simp add: render_Some well_formed_def)
next
  case None
  have t: "tokens_ok this" using assms(1) by (simp add: well_formed_def)
  have k: "to_string (alignment (this_data this)) \<notin> set object_prototype_names"
    using assms(2) None by simp
  have l: "listeners_ok (length (this_tunesButtons this)) False pg"
    using assms(1) None by (simp add: well_formed_def)
  obtain r pg1 where d: "drawView this pg = (r, pg1)" by (cases "drawView this pg")
  have r: "r = Inr (dom_next pg)" using drawView_returns [OF t k, of pg] d by simp
  have "listeners_ok (length (this_tunesButtons this)) True pg1"
    using listeners_ok_drawView [OF l, of this] d by simp
  then show ?thesis using None t d r by (simp add: render_None well_formed_def)
qed

lemma renderSettings_well_formed:
  assumes "well_formed (this, pg)"
  shows "(\<exists>w. fst (renderSettings b this pg) = Inr w) \<and> well_formed (snd (renderSettings b this pg))"
proof -
  have t: "tokens_ok this" using assms by (simp add: well_formed_def)
  then have "check_tokens [to_string (settingsButtonActive (this_CSS this))] = None"
    unfolding check_tokens_None_iff by (simp add: tokens_ok_def)
  from renderSettings_returns [OF this, of b pg]
  have 1: "\<exists>w. fst (renderSettings b this pg) = Inr w" by auto
  note rt = renderSettings_this [of b this pg]
  have s: "shell (fst (snd (renderSettings b this pg))) = shell this" using rt by simp
  have l: "listeners_ok (length (this_tunesButtons this)) (this_element this \<noteq> None) pg"
    using assms by (simp add: well_formed_def)
  have 2: "well_formed (snd (renderSettings b this pg))"
    using listeners_ok_renderSettings [OF l refl, of b] rt tokens_ok_shell [OF s] tunes_shell [OF s] t assms
    by (simp add: well_formed_def)
  show ?thesis using 1 2 by simp
qed

lemma click_handlers_fine:
  assumes "listeners_ok n r pg"
  shows "\<forall>h\<in>set (map snd (filter (\<lambda>l. fst l = ty) (listeners (dom pg el)))). handler_fine n h"
proof -
  have "list_all (listener_ok n r) (listeners (dom pg el))"
    using assms by (simp add: listeners_ok_def)
  then show ?thesis
    by (auto simp: list_all_iff listener_ok_def handler_fine_def split: handler.splits)
qed

lemma keyup_handlers_none:
  assumes "listeners_ok n False pg"
  shows "filter (\<lambda>l. fst l = js_of ''keyup'') (listeners (dom pg el)) = []"
proof -
  have "list_all (listener_ok n False) (listeners (dom pg el))"
    using assms by (simp add: listeners_ok_def)
  moreover have "listener_ok n False l \<Longrightarrow> fst l \<noteq> js_of ''keyup''" for l
    by (cases "snd l") (auto simp: listener_ok_def)
  ultimately show ?thesis by (auto simp: list_all_iff filter_empty_conv)
qed

lemma animation_frame_raf_zero:
  "raf_queue pg = 0 \<Longrightarrow> raf_queue (animation_frame b this pg) = 0"
  by (simp add: animation_frame_def)

lemma step_well_formed:
  assumes "well_formed st" and "normal_op (fst st) x"
  shows "well_formed (step b x st)"
proof -
  obtain this pg where st: "st = (this, pg)" by (cases st)
  have w: "well_formed (this, pg)" using assms(1) st by simp
  have n: "normal_op this x" using assms(2) st by simp
  show ?thesis
  proof (cases x)
    case Render
    then show ?thesis using render_well_formed [OF w] n st by simp
  next
    case (Save el)
    note sv = save_this [of el this pg]
    have s: "shell (snd (save el this pg)) = shell this" using sv by simp
    show ?thesis using w sv tokens_ok_shell [OF s] tunes_shell [OF s] st Save
      by (simp add: well_formed_def)
  next
    case (Validate d)
    then show ?thesis using w st by simp
  next
    case (Merge d)
    then obtain d' where "d = Some d'" using n by auto
    then show ?thesis using w st Merge
      by (cases "this_element this") (simp_all add: merge_Some well_formed_def)
  next
    case (OnPaste event)
    then show ?thesis using w st
      by (cases "this_element this") (simp_all add: onPaste_eq well_formed_def)
  next
    case RenderSettings
    then show ?thesis using renderSettings_well_formed [OF w, of b] st by simp
  next
    case (SetData d)
    then show ?thesis using w st
      by (cases "this_element this") (simp_all add: set_data_simp well_formed_def)
  next
    case (Click el)
    then show ?thesis using dispatch_well_formed [OF w] st by simp
  next
    case (KeyUp el code)
    then show ?thesis using dispatch_well_formed [OF w] st by simp
  next
    case (UserInput el html)
    then show ?thesis using w st by (simp add: well_formed_def listeners_ok_update)
  next
    case AnimationFrame
    then show ?thesis using w st by (simp add: well_formed_def animation_frame_raf_zero)
  qed
qed

lemma step_no_error:
  assumes "well_formed st" and "normal_op (fst st) x"
  shows "step_errors b x st = []"
proof -
  obtain this pg where st: "st = (this, pg)" by (cases st)
  have w: "well_formed (this, pg)" using assms(1) st by simp
  have n: "normal_op this x" using assms(2) st by simp
  have t: "tokens_ok this" using w by (simp add: well_formed_def)
  have l: "listeners_ok (length (this_tunesButtons this)) (this_element this \<noteq> None) pg"
    using w by (simp add: well_formed_def)
  show ?thesis
  proof (cases x)
    case Render
    then show ?thesis using render_well_formed [OF w] n st by simp
  next
    case (Save el)
    then show ?thesis using n st by (auto simp: save_def get_data_pair)
  next
    case (Validate d)
    then obtain d' where "d = Some d'" "is_string (text d')"
      using n by (auto split: option.splits)
    then show ?thesis using st Validate
      by (cases "text d'") (simp_all add: validate_def)
  next
    case (Merge d)
    then obtain d' where "d = Some d'" using n by auto
    then show ?thesis using st Merge by (simp add: merge_Some)
  next
    case (OnPaste event)
    then show ?thesis using st by simp
  next
    case RenderSettings
    then show ?thesis using renderSettings_well_formed [OF w, of b] st by auto
  next
    case (SetData d)
    then show ?thesis using st by simp
  next
    case (Click el)
    have e: "this_element (fst (this, pg)) \<noteq> None" using n Click by simp
    have t': "tokens_ok (fst (this, pg))" using t by simp
    have "\<forall>h\<in>set (map snd (filter (\<lambda>l. fst l = js_of ''click'') (listeners (dom pg el)))).
            handler_fine (length (this_tunesButtons (fst (this, pg)))) h"
      using click_handlers_fine [OF l] by simp
    from dispatch_no_error [OF t' e this] show ?thesis using st Click by simp
  next
    case (KeyUp el code)
    show ?thesis
    proof (cases "this_element this")
      case None
      then have "listeners_ok (length (this_tunesButtons this)) False pg" using l by simp
      from keyup_handlers_none [OF this] show ?thesis using st KeyUp by simp
    next
      case (Some e)
      then have e: "this_element (fst (this, pg)) \<noteq> None" by simp
      have t': "tokens_ok (fst (this, pg))" using t by simp
      have "\<forall>h\<in>set (map snd (filter (\<lambda>l. fst l = js_of ''keyup'') (listeners (dom pg el)))).
              handler_fine (length (this_tunesButtons (fst (this, pg)))) h"
        using click_handlers_fine [OF l] by simp
      from dispatch_no_error [OF t' e this] show ?thesis using st KeyUp by simp
    qed
  next
    case (UserInput el html)
    then show ?thesis using st by simp
  next
    case AnimationFrame
    then show ?thesis using w st by (simp add: well_formed_def)
  qed
qed

lemma run_no_error:
  "well_formed st \<Longrightarrow> normal_run b ops st \<Longrightarrow> run_errors b ops st = []"
proof (induction ops arbitrary: st)
  case Nil
  show ?case by simp
next
  case (Cons x xs)
  have n: "normal_op (fst st) x" and r: "normal_run b xs (step b x st)"
    using Cons.prems(2) by simp_all
  show ?case
    using step_no_error [OF Cons.prems(1) n, of b] Cons.IH [OF step_well_formed [OF Cons.prems(1) n] r]
    by simp
qed

lemma constructor_well_formed:
  assumes "data p = Some d" and "config p = Some c" and "api p = Some a"
      and "check_tokens [to_string (styles_block a), to_string (styles_settingsButtonActive a)] = None"
      and "raf_queue pg = 0" and "\<forall>el. listeners (dom pg el) = []"
  shows "\<exists>this. constructor rq p pg = Inr (this, pg) \<and> well_formed (this, pg)"
proof -
  obtain this where c: "constructor rq p pg = Inr (this, pg)"
    and e: "this_element this = None"
    and nm: "map name (this_tunesButtons this) = ALIGNMENTS"
    and bl: "block (this_CSS this) = styles_block a"
    and wr: "wrapper (this_CSS this) = js_of ''ce-paragraph''"
    and sb: "settingsButtonActive (this_CSS this) = styles_settingsButtonActive a"
    and al: "css_alignment (this_CSS this) =
              [(js_of ''left'', js_of ''ce-paragraph--left''),
               (js_of ''center'', js_of ''ce-paragraph--center''),
               (js_of ''right'', js_of ''ce-paragraph--right''),
               (js_of ''justify'', js_of ''ce-paragraph--justify'')]"
    using constructor_Inr [OF assms(1-3), of rq pg] by blast
  have v: "valid_token (to_string (styles_block a))" "valid_token (to_string (styles_settingsButtonActive a))"
    using assms(4) unfolding check_tokens_None_iff by simp_all
  have "set (map name (this_tunesButtons this)) = set ALIGNMENTS" using nm by simp
  then have names: "\<forall>t\<in>set (this_tunesButtons this). name t \<in> set ALIGNMENTS" by auto
  have t: "tokens_ok this"
    using v names by (simp add: tokens_ok_def bl wr sb al valid_token_def ALIGNMENTS_def)
  have l: "listeners_ok n False pg" for n
    using assms(6) by (simp add: listeners_ok_def)
  have "well_formed (this, pg)"
    using t l e assms(5) by (simp add: well_formed_def)
  then show ?thesis using c by blast
qed

lemma normal_op_rendered:
  "this_element this \<noteq> None \<Longrightarrow> this_element this' \<noteq> None \<Longrightarrow> normal_op this' x = normal_op this x"
  by (cases x) simp_all

lemma normal_run_rendered:
  "this_element (fst st) \<noteq> None \<Longrightarrow> list_all (normal_op (fst st)) ops \<Longrightarrow> normal_run b ops st"
proof (induction ops arbitrary: st)
  case Nil
  show ?case by simp
next
  case (Cons x xs)
  obtain e where e: "this_element (fst st) = Some e" using Cons.prems(1) by auto
  have e': "this_element (fst (step b x st)) \<noteq> None" using step_this [of b x st e] e by simp
  have "list_all (normal_op (fst (step b x st))) xs"
    using Cons.prems normal_op_rendered [OF Cons.prems(1) e'] by (simp add: list_all_iff)
  from Cons.IH [OF e' this] show ?case using Cons.prems(2) by simp
qed

section \<open>The properties of the specification\<close>

subsection \<open>Construction\<close>

text \<open>
  C1. With data that has neither \<^verbatim>\<open>text\<close> nor \<^verbatim>\<open>alignment\<close> and a
  configuration without \<^verbatim>\<open>defaultAlignment\<close>, the constructor first builds
  \<^verbatim>\<open>{text: '', alignment: 'left'}\<close> from its fallback chain and then, in its last
  statement, stores the data it was given in its place: the instance holds an object
  with both fields undefined.
\<close>

theorem constructor_overwrites_fallback:
  "\<exists>this. constructor rq \<lparr>data = Some empty_object, config = Some empty_config,
                            api = Some a, readOnly = ro\<rparr> pg = Inr (this, pg) \<and>
          this_data this = \<lparr>text = JUndefined, alignment = JUndefined\<rparr> \<and>
          this_data this \<noteq> \<lparr>text = JStr [], alignment = JStr (js_of ''left'')\<rparr>"
  using constructor_Inr [of "\<lparr>data = Some empty_object, config = Some empty_config,
                            api = Some a, readOnly = ro\<rparr>" empty_object empty_config a rq pg]
  by (auto simp: empty_object_def)

subsection \<open>The alignment stays among the four\<close>

text \<open>
  C2. The alignment does not stay among \<^verbatim>\<open>left\<close>, \<^verbatim>\<open>center\<close>,
  \<^verbatim>\<open>right\<close>, \<^verbatim>\<open>justify\<close> by itself: the component stores what it is given.
  It does stay among them through every sequence of calls, events, edits and frames when
  the data given to the constructor and to the setter carry one of the four, the
  configured \<^verbatim>\<open>defaultAlignment\<close> is one of the four, and every pasted element
  has an inline \<^verbatim>\<open>text-align\<close> that is empty or one of the four.
\<close>

theorem alignment_invariant:
  assumes "constructor rq p pg0 = Inr st0"
      and "data p = Some d" and "alignment_ok (alignment d)"
      and "config p = Some c" and "alignment_ok (defaultAlignment c)"
      and "\<forall>x\<in>set ops. op_ok x"
  shows "alignment_ok (alignment (this_data (fst (run b ops st0))))"
proof -
  obtain a where a: "api p = Some a"
    using constructor_InrD [OF assms(1)] by auto
  obtain this0 where c0: "constructor rq p pg0 = Inr (this0, pg0)"
      and f: "this_data this0 = d" "this_config this0 = c" "map name (this_tunesButtons this0) = ALIGNMENTS"
    using constructor_Inr [OF assms(2) assms(4) a, of rq pg0] by auto
  have "aligned this0" using f assms(3) assms(5) by (simp add: aligned_def)
  moreover have "st0 = (this0, pg0)" using c0 assms(1) by simp
  ultimately have "aligned (fst (run b ops st0))"
    using run_aligned [of st0 ops b] assms(6) by simp
  then show ?thesis by (simp add: aligned_def)
qed

text \<open>
  A pasted element with \<^verbatim>\<open>style="text-align:start"\<close> leaves the block with the
  alignment \<^verbatim>\<open>start\<close>.
\<close>

theorem alignment_invariant_counterexample:
  "data_after example_browser example_svg
     \<lparr>data = Some \<lparr>text = JStr [], alignment = JStr (js_of ''left'')\<rparr>,
      config = Some empty_config, api = Some example_api, readOnly = JBool False\<rparr>
     [OnPaste \<lparr>pasted_innerHTML = js_of ''hi'', pasted_textAlign = js_of ''start''\<rparr>]
   = Inr \<lparr>text = JStr (js_of ''hi''), alignment = JStr (js_of ''start'')\<rparr>
   \<and> \<not> alignment_ok (JStr (js_of ''start''))"
  by (simp add: data_after_def constructor_def set_data_simp onPaste_eq
        alignment_ok_def ALIGNMENTS_def)

theorem alignment_invariant_witness:
  "data_after example_browser example_svg
     \<lparr>data = Some \<lparr>text = JStr [], alignment = JStr (js_of ''left'')\<rparr>,
      config = Some (empty_config\<lparr>defaultAlignment := JStr (js_of ''center'')\<rparr>),
      api = Some example_api, readOnly = JBool False\<rparr>
     [OnPaste \<lparr>pasted_innerHTML = js_of ''hi'', pasted_textAlign = []\<rparr>,
      Merge (Some \<lparr>text = JStr (js_of ''!''), alignment = JUndefined\<rparr>)]
   = Inr \<lparr>text = JStr (js_of ''hi!''), alignment = JStr (js_of ''center'')\<rparr>
   \<and> alignment_ok (JStr (js_of ''center''))"
proof -
  let ?p = "\<lparr>data = Some \<lparr>text = JStr [], alignment = JStr (js_of ''left'')\<rparr>,
      config = Some (empty_config\<lparr>defaultAlignment := JStr (js_of ''center'')\<rparr>),
      api = Some example_api, readOnly = JBool False\<rparr>"
  let ?ops = "[OnPaste \<lparr>pasted_innerHTML = js_of ''hi'', pasted_textAlign = []\<rparr>,
      Merge (Some \<lparr>text = JStr (js_of ''!''), alignment = JUndefined\<rparr>)]"
  obtain this0 where c0: "constructor example_svg ?p empty_page = Inr (this0, empty_page)"
    using constructor_Inr [of ?p _ _ example_api example_svg empty_page] by auto
  have ok: "alignment_ok (alignment (this_data (fst (run example_browser ?ops (this0, empty_page)))))"
    by (rule alignment_invariant [OF c0, of "\<lparr>text = JStr [], alignment = JStr (js_of ''left'')\<rparr>"
          "empty_config\<lparr>defaultAlignment := JStr (js_of ''center'')\<rparr>" ?ops example_browser])
       (simp_all add: alignment_ok_def ALIGNMENTS_def)
  have d: "data_after example_browser example_svg ?p ?ops =
      Inr \<lparr>text = JStr (js_of ''hi!''), alignment = JStr (js_of ''center'')\<rparr>"
    by (simp add: data_after_def constructor_def set_data_simp onPaste_eq merge_def
        get_data_def js_add_def empty_config_def js_of_def)
  have "this_data (fst (run example_browser ?ops (this0, empty_page))) =
      \<lparr>text = JStr (js_of ''hi!''), alignment = JStr (js_of ''center'')\<rparr>"
    using d c0 by (simp add: data_after_def)
  then show ?thesis using ok d by simp
qed

subsection \<open>The tune buttons\<close>

text \<open>
  C3. Take an instance at any point of its life, let \<^verbatim>\<open>renderSettings\<close> build its
  buttons, and let anything happen afterwards. A click on the button of the tune
  \<open>ALIGNMENTS ! i\<close> then sets the alignment to that tune when the current alignment is
  another value, and to the configured \<^verbatim>\<open>defaultAlignment\<close> (undefined when none
  is configured) when the current alignment is that tune.
\<close>

theorem tune_button_click:
  assumes "constructor rq p pg0 = Inr st0" and "config p = Some c"
      and "run b ops st0 = (this, pg)"
      and "renderSettings b this pg = (Inr w, this1, pg1)"
      and "run b ops' (this1, pg1) = (this2, pg2)"
      and "i < 4"
  shows "alignment (this_data (fst (step b (Click (children (dom pg1 w) ! i)) (this2, pg2)))) =
           (if alignment (this_data this2) = JStr (ALIGNMENTS ! i) then defaultAlignment c
            else JStr (ALIGNMENTS ! i))"
proof -
  obtain d a where p: "data p = Some d" "api p = Some a"
    using constructor_InrD [OF assms(1)] by auto
  obtain this0 where c0: "constructor rq p pg0 = Inr (this0, pg0)"
      and f: "this_config this0 = c" "map name (this_tunesButtons this0) = ALIGNMENTS"
    using constructor_Inr [OF p(1) assms(2) p(2), of rq pg0] by auto
  have st0: "st0 = (this0, pg0)" using c0 assms(1) by simp
  have s0: "shell this = shell this0"
    using run_this [of b ops st0] assms(3) st0 by simp
  have s1: "shell this1 = shell this"
    using renderSettings_this [of b this pg] assms(4) by simp
  have s2: "shell this2 = shell this1"
    using run_this [of b ops' "(this1, pg1)"] assms(5) by simp
  have tb: "this_tunesButtons this = this_tunesButtons this0"
       "this_tunesButtons this2 = this_tunesButtons this0"
    using s0 s1 s2 by (metis shell_fields(7))+
  have cf: "this_config this2 = c"
    using s0 s1 s2 f(1) by (metis shell_fields(3))
  have len: "length (this_tunesButtons this0) = 4"
    using arg_cong [OF f(2), of length] by (simp add: ALIGNMENTS_def)
  have nm: "name (this_tunesButtons this0 ! i) = ALIGNMENTS ! i"
    using f(2) assms(6) len by (metis nth_map)
  let ?button = "children (dom pg1 w) ! i"
  have i: "i < length (this_tunesButtons this)" using tb len assms(6) by simp
  note rb = renderSettings_buttons [OF assms(4) i]
  have "stable ?button pg1 pg2"
    using run_stable_any [of ?button "(this1, pg1)" b ops'] rb assms(5) by simp
  then have l: "listeners (dom pg2 ?button) = [(js_of ''click'', TuneClick i (children (dom pg1 w)))]"
    using rb by (simp add: stable_def)
  have "step b (Click ?button) (this2, pg2) = snd (tune_click i (children (dom pg1 w)) this2 pg2)"
    using dispatch_single [of "(this2, pg2)" ?button "js_of ''click''" _ b JUndefined] l
    by (simp add: run_handler_def)
  then show ?thesis
    using tb len assms(6) nm cf by (simp add: tune_click_alignment_eq)
qed

theorem tune_button_click_witness:
  "\<exists>this w this1 pg1.
     constructor example_svg
       (example_params \<lparr>text = JStr [], alignment = JStr (js_of ''left'')\<rparr>
          (empty_config\<lparr>defaultAlignment := JStr (js_of ''right'')\<rparr>) (JBool False)) empty_page
       = Inr (this, empty_page) \<and>
     renderSettings example_browser this empty_page = (Inr w, this1, pg1) \<and>
     alignment (this_data (fst (run example_browser [Click (children (dom pg1 w) ! 1)] (this1, pg1))))
       = JStr (js_of ''center'') \<and>
     alignment (this_data (fst (run example_browser
         [Click (children (dom pg1 w) ! 1), Click (children (dom pg1 w) ! 1)] (this1, pg1))))
       = JStr (js_of ''right'')"
proof -
  let ?d = "\<lparr>text = JStr [], alignment = JStr (js_of ''left'')\<rparr>"
  let ?c = "empty_config\<lparr>defaultAlignment := JStr (js_of ''right'')\<rparr>"
  let ?p = "example_params ?d ?c (JBool False)"
  let ?b = example_browser
  obtain this where c: "constructor example_svg ?p empty_page = Inr (this, empty_page)"
    and f: "this_data this = ?d"
      "settingsButtonActive (this_CSS this) = JStr (js_of ''cdx-settings-button--active'')"
    using example_constructor by blast
  have k: "check_tokens [to_string (settingsButtonActive (this_CSS this))] = None"
    using f(2) by (simp add: js_of_def ascii_white_space_def)
  obtain this1 pg1 where rs: "renderSettings ?b this empty_page = (Inr (dom_next empty_page), this1, pg1)"
    using renderSettings_returns [OF k] by blast
  let ?w = "dom_next empty_page"
  let ?button = "children (dom pg1 ?w) ! 1"
  have cfg: "config ?p = Some ?c" by (simp add: example_params_def)
  have r0: "run ?b [] (this, empty_page) = (this, empty_page)" by simp
  have r1: "run ?b [] (this1, pg1) = (this1, pg1)" by simp
  have a1: "alignment (this_data this1) = JStr (js_of ''left'')"
    using renderSettings_this [of ?b this empty_page] rs f(1) by simp
  have one: "(1::nat) < 4" by simp
  have al: "ALIGNMENTS ! 1 = js_of ''center''" by (simp add: ALIGNMENTS_def)
  have first: "alignment (this_data (fst (step ?b (Click ?button) (this1, pg1)))) = JStr (js_of ''center'')"
    using tune_button_click [OF c cfg r0 rs r1 one] a1 al by (simp del: step.simps)
  obtain this2 pg2 where s2: "step ?b (Click ?button) (this1, pg1) = (this2, pg2)"
    by (cases "step ?b (Click ?button) (this1, pg1)")
  have r2: "run ?b [Click ?button] (this1, pg1) = (this2, pg2)"
    using s2 by (simp del: step.simps)
  have a2: "alignment (this_data this2) = JStr (js_of ''center'')"
    using first s2 by simp
  have second: "alignment (this_data (fst (step ?b (Click ?button) (this2, pg2)))) = JStr (js_of ''right'')"
    using tune_button_click [OF c cfg r0 rs r2 one] a2 al by (simp del: step.simps)
  have "alignment (this_data (fst (run ?b [Click ?button] (this1, pg1)))) = JStr (js_of ''center'')"
    using first by (simp del: step.simps)
  moreover have "alignment (this_data (fst (run ?b [Click ?button, Click ?button] (this1, pg1)))) = JStr (js_of ''right'')"
    using second s2 by (simp del: step.simps)
  ultimately show ?thesis using c rs by blast
qed

subsection \<open>Validation\<close>

text \<open>
  C4. On an instance at any point of its life, \<^verbatim>\<open>validate\<close> of saved data whose
  text is a string returns false exactly when the trimmed text is empty and the
  configured \<^verbatim>\<open>preserveBlank\<close> is not truthy (an absent one is not); the trimmed
  text is empty exactly when the text consists of white space.
\<close>

theorem validate_blank:
  assumes "constructor rq p pg0 = Inr st0" and "config p = Some c"
      and "run b ops st0 = (this, pg)" and "text d = JStr t"
  shows "validate this (Some d) = Inr (\<not> (trim t = [] \<and> \<not> truthy (preserveBlank c))) \<and>
         (trim t = [] \<longleftrightarrow> list_all white_space t)"
proof -
  obtain d0 a where p: "data p = Some d0" "api p = Some a"
    using constructor_InrD [OF assms(1)] by auto
  obtain this0 where c0: "constructor rq p pg0 = Inr (this0, pg0)"
      and pb: "this_preserveBlank this0 = (if preserveBlank c \<noteq> JUndefined then preserveBlank c else JBool False)"
    using constructor_Inr [OF p(1) assms(2) p(2), of rq pg0] by auto
  have st0: "st0 = (this0, pg0)" using c0 assms(1) by simp
  have "shell this = shell this0"
    using run_this [of b ops st0] assms(3) st0 by simp
  then have "this_preserveBlank this = this_preserveBlank this0"
    by (metis shell_fields(8))
  then have "truthy (this_preserveBlank this) = truthy (preserveBlank c)"
    using pb by simp
  then show ?thesis
    using assms(4) by (simp add: validate_def strict_eq_def trim_empty_iff)
qed

theorem validate_blank_witness:
  "\<exists>this pg. constructor example_svg
       \<lparr>data = Some empty_object, config = Some empty_config, api = Some example_api,
        readOnly = JBool False\<rparr> empty_page = Inr (this, pg) \<and>
     validate this (Some \<lparr>text = JStr (js_of ''   ''), alignment = JStr (js_of ''left'')\<rparr>) = Inr False \<and>
     validate this (Some \<lparr>text = JStr (js_of '' a ''), alignment = JStr (js_of ''left'')\<rparr>) = Inr True"
proof -
  let ?p = "\<lparr>data = Some empty_object, config = Some empty_config, api = Some example_api,
        readOnly = JBool False\<rparr>"
  obtain this where c: "constructor example_svg ?p empty_page = Inr (this, empty_page)"
    using constructor_Inr [of ?p empty_object empty_config example_api example_svg empty_page] by auto
  have r: "run example_browser [] (this, empty_page) = (this, empty_page)" by simp
  have cfg: "config ?p = Some empty_config" by simp
  show ?thesis
    using c
      validate_blank [OF c cfg r, of "\<lparr>text = JStr (js_of ''   ''), alignment = JStr (js_of ''left'')\<rparr>" "js_of ''   ''"]
      validate_blank [OF c cfg r, of "\<lparr>text = JStr (js_of '' a ''), alignment = JStr (js_of ''left'')\<rparr>" "js_of '' a ''"]
    by (simp add: empty_config_def trim_def js_of_def white_space_def)
qed

subsection \<open>Merge\<close>

text \<open>
  C5. \<^verbatim>\<open>merge\<close> does not concatenate for every state of the block and every incoming
  data: the text it takes for the block is what the getter reads, and that is the markup
  of the element once the block is rendered (empty until the hydration that
  \<^verbatim>\<open>render\<close> scheduled has run), and the stored text only while nothing is rendered;
  and \<^verbatim>\<open>+\<close> concatenates strings only. When that current text of the block is a
  string and the incoming text is a string, \<^verbatim>\<open>merge\<close> returns normally and replaces
  \<^verbatim>\<open>this._data\<close> by the concatenation of the two texts together with the alignment
  the block had; nothing else of the instance changes, and when the block is rendered the
  next animation frame writes the concatenation into its element.
\<close>

theorem merge_concatenates:
  assumes "(case this_element this of
              None \<Rightarrow> text (this_data this)
            | Some e \<Rightarrow> JStr (innerHTML (dom pg e))) = JStr a"
      and "text d = JStr t"
  shows "\<exists>pg'. merge (Some d) this pg =
           (None,
            this\<lparr>this_data := \<lparr>text = JStr (a @ t), alignment = alignment (this_data this)\<rparr>\<rparr>,
            pg') \<and>
           (\<forall>e. this_element this = Some e \<longrightarrow>
              innerHTML (dom (animation_frame b
                 (this\<lparr>this_data := \<lparr>text = JStr (a @ t), alignment = alignment (this_data this)\<rparr>\<rparr>)
                 pg') e) =
              (if a @ t = [] then [] else serialize_html b (a @ t)))"
proof -
  let ?this' = "this\<lparr>this_data := \<lparr>text = JStr (a @ t), alignment = alignment (this_data this)\<rparr>\<rparr>"
  let ?pg' = "if this_element this = None then pg else hydrate pg"
  have "text (the_data this pg) = JStr a"
    using assms(1) by (simp add: the_data_text)
  then have m: "merge (Some d) this pg = (None, ?this', ?pg')"
    using assms(2) by (simp add: merge_Some)
  have "innerHTML (dom (animation_frame b ?this' ?pg') e) =
          (if a @ t = [] then [] else serialize_html b (a @ t))" if e: "this_element this = Some e" for e
  proof -
    have "this_element ?this' = Some e" "0 < raf_queue ?pg'" using e by simp_all
    then show ?thesis using animation_frame_innerHTML [of ?this' e ?pg' b] by simp
  qed
  then show ?thesis using m by blast
qed

text \<open>
  A block constructed with \<^verbatim>\<open>{text: 'A', alignment: 'center'}\<close> and rendered, but not
  yet hydrated, merges \<^verbatim>\<open>{text: 'B'}\<close> to the text \<^verbatim>\<open>B\<close>; the same block,
  not rendered, merges data without a text to \<^verbatim>\<open>Aundefined\<close>.
\<close>

theorem merge_concatenates_counterexample:
  "data_after example_browser example_svg
     (example_params \<lparr>text = JStr (js_of ''A''), alignment = JStr (js_of ''center'')\<rparr>
        empty_config (JBool False))
     [Render, Merge (Some \<lparr>text = JStr (js_of ''B''), alignment = JUndefined\<rparr>)]
   = Inr \<lparr>text = JStr (js_of ''B''), alignment = JStr (js_of ''center'')\<rparr> \<and>
   data_after example_browser example_svg
     (example_params \<lparr>text = JStr (js_of ''A''), alignment = JStr (js_of ''center'')\<rparr>
        empty_config (JBool False))
     [Merge (Some \<lparr>text = JUndefined, alignment = JUndefined\<rparr>)]
   = Inr \<lparr>text = JStr (js_of ''Aundefined''), alignment = JStr (js_of ''center'')\<rparr>"
proof -
  let ?d = "\<lparr>text = JStr (js_of ''A''), alignment = JStr (js_of ''center'')\<rparr>"
  let ?p = "example_params ?d empty_config (JBool False)"
  obtain this where c: "constructor example_svg ?p empty_page = Inr (this, empty_page)"
    and f: "this_data this = ?d"
      "this_element this = None" "block (this_CSS this) = JStr (js_of ''cdx-block'')"
      "wrapper (this_CSS this) = js_of ''ce-paragraph''"
      "css_alignment (this_CSS this) =
        [(js_of ''left'', js_of ''ce-paragraph--left''),
         (js_of ''center'', js_of ''ce-paragraph--center''),
         (js_of ''right'', js_of ''ce-paragraph--right''),
         (js_of ''justify'', js_of ''ce-paragraph--justify'')]"
    using example_constructor by blast
  let ?this1 = "this\<lparr>this_element := Some (dom_next empty_page)\<rparr>"
  obtain pg1 where r: "render this empty_page = (Inr (dom_next empty_page), ?this1, pg1)"
    using example_render [OF f(2-5), of empty_page] f(1) by auto
  have h: "innerHTML (dom pg1 (dom_next empty_page)) = []"
    using render_first [OF f(2) r] by simp
  have "this_data (fst (snd (merge (Some \<lparr>text = JStr (js_of ''B''), alignment = JUndefined\<rparr>) ?this1 pg1)))
        = \<lparr>text = JStr (js_of ''B''), alignment = JStr (js_of ''center'')\<rparr>"
    using h f(1) by (simp add: merge_Some the_data_text)
  then have one: "data_after example_browser example_svg ?p
      [Render, Merge (Some \<lparr>text = JStr (js_of ''B''), alignment = JUndefined\<rparr>)]
      = Inr \<lparr>text = JStr (js_of ''B''), alignment = JStr (js_of ''center'')\<rparr>"
    using c r by (simp add: data_after_def)
  have u: "js_of ''A'' @ js_of ''undefined'' = js_of ''Aundefined''" by (simp add: js_of_def)
  have "this_data (fst (snd (merge (Some \<lparr>text = JUndefined, alignment = JUndefined\<rparr>) this empty_page)))
        = \<lparr>text = JStr (js_of ''Aundefined''), alignment = JStr (js_of ''center'')\<rparr>"
    using f(1,2) u by (simp add: merge_Some the_data_text js_add_def)
  then have two: "data_after example_browser example_svg ?p
      [Merge (Some \<lparr>text = JUndefined, alignment = JUndefined\<rparr>)]
      = Inr \<lparr>text = JStr (js_of ''Aundefined''), alignment = JStr (js_of ''center'')\<rparr>"
    using c by (simp add: data_after_def)
  show ?thesis using one two by simp
qed

theorem merge_concatenates_witness:
  "\<exists>this this1 pg1 pg'.
     constructor example_svg
       (example_params \<lparr>text = JStr (js_of ''A''), alignment = JStr (js_of ''center'')\<rparr>
          empty_config (JBool False)) empty_page = Inr (this, empty_page) \<and>
     render this empty_page = (Inr 0, this1, pg1) \<and>
     merge (Some \<lparr>text = JStr (js_of ''B''), alignment = JUndefined\<rparr>) this1
        (animation_frame example_browser this1 pg1) =
       (None, this1\<lparr>this_data := \<lparr>text = JStr (js_of ''AB''), alignment = JStr (js_of ''center'')\<rparr>\<rparr>, pg') \<and>
     innerHTML (dom (animation_frame example_browser
        (this1\<lparr>this_data := \<lparr>text = JStr (js_of ''AB''), alignment = JStr (js_of ''center'')\<rparr>\<rparr>) pg') 0)
       = js_of ''AB''"
proof -
  let ?d = "\<lparr>text = JStr (js_of ''A''), alignment = JStr (js_of ''center'')\<rparr>"
  let ?p = "example_params ?d empty_config (JBool False)"
  obtain this where c: "constructor example_svg ?p empty_page = Inr (this, empty_page)"
    and f: "this_data this = ?d"
      "this_element this = None" "block (this_CSS this) = JStr (js_of ''cdx-block'')"
      "wrapper (this_CSS this) = js_of ''ce-paragraph''"
      "css_alignment (this_CSS this) =
        [(js_of ''left'', js_of ''ce-paragraph--left''),
         (js_of ''center'', js_of ''ce-paragraph--center''),
         (js_of ''right'', js_of ''ce-paragraph--right''),
         (js_of ''justify'', js_of ''ce-paragraph--justify'')]"
    using example_constructor by blast
  let ?this1 = "this\<lparr>this_element := Some 0\<rparr>"
  obtain pg1 where r: "render this empty_page = (Inr 0, ?this1, pg1)"
    using example_render [OF f(2-5), of empty_page] f(1) by (auto simp: empty_page_def)
  have q: "0 < raf_queue pg1" using render_first [OF f(2) r] by simp
  let ?pg2 = "animation_frame example_browser ?this1 pg1"
  have h: "innerHTML (dom ?pg2 0) = js_of ''A''"
    using animation_frame_innerHTML [of ?this1 0 pg1 example_browser] q f(1)
    by (simp add: example_browser_def)
  have g: "(case this_element ?this1 of
              None \<Rightarrow> text (this_data ?this1)
            | Some e \<Rightarrow> JStr (innerHTML (dom ?pg2 e))) = JStr (js_of ''A'')"
    using h by simp
  have ab: "js_of ''A'' @ js_of ''B'' = js_of ''AB''" by (simp add: js_of_def)
  obtain pg' where
    "merge (Some \<lparr>text = JStr (js_of ''B''), alignment = JUndefined\<rparr>) ?this1 ?pg2 =
       (None, ?this1\<lparr>this_data := \<lparr>text = JStr (js_of ''AB''), alignment = JStr (js_of ''center'')\<rparr>\<rparr>, pg')"
    "innerHTML (dom (animation_frame example_browser
        (?this1\<lparr>this_data := \<lparr>text = JStr (js_of ''AB''), alignment = JStr (js_of ''center'')\<rparr>\<rparr>) pg') 0)
       = js_of ''AB''"
    using merge_concatenates [OF g, of "\<lparr>text = JStr (js_of ''B''), alignment = JUndefined\<rparr>" "js_of ''B''" example_browser]
      f(1) ab by (auto simp: example_browser_def)
  then show ?thesis using c r by blast
qed

subsection \<open>Paste\<close>

text \<open>
  C6. \<^verbatim>\<open>onPaste\<close> replaces \<^verbatim>\<open>this._data\<close> and nothing else of the instance:
  the text is the markup of the pasted element, the alignment its inline
  \<^verbatim>\<open>text-align\<close> when that is not empty, else the configured default when that is
  truthy, else \<^verbatim>\<open>left\<close>.
\<close>

theorem onPaste_replaces_data:
  "fst (onPaste event this pg) =
     this\<lparr>this_data :=
       \<lparr>text = JStr (pasted_innerHTML event),
        alignment =
          (if pasted_textAlign event \<noteq> [] then JStr (pasted_textAlign event)
           else if truthy (defaultAlignment (this_config this))
                then defaultAlignment (this_config this)
                else JStr (js_of ''left''))\<rparr>\<rparr>"
  by (simp add: onPaste_def set_data_simp js_or_def DEFAULT_ALIGNMENT_def)

text \<open>
  Pasting \<^verbatim>\<open><div style="text-align:right">hi</div>\<close> gives
  \<^verbatim>\<open>{text: 'hi', alignment: 'right'}\<close>; without an inline alignment and without a
  configured default the alignment is \<^verbatim>\<open>left\<close>.
\<close>

theorem onPaste_replaces_data_witness:
  "\<exists>this pg. constructor example_svg
       \<lparr>data = Some \<lparr>text = JStr (js_of ''old''), alignment = JStr (js_of ''center'')\<rparr>,
        config = Some empty_config, api = Some example_api, readOnly = JBool False\<rparr> empty_page
       = Inr (this, pg) \<and>
     this_data (fst (onPaste \<lparr>pasted_innerHTML = js_of ''hi'', pasted_textAlign = js_of ''right''\<rparr> this pg))
       = \<lparr>text = JStr (js_of ''hi''), alignment = JStr (js_of ''right'')\<rparr> \<and>
     this_data (fst (onPaste \<lparr>pasted_innerHTML = js_of ''hi'', pasted_textAlign = []\<rparr> this pg))
       = \<lparr>text = JStr (js_of ''hi''), alignment = JStr (js_of ''left'')\<rparr>"
proof -
  obtain this where c: "constructor example_svg
       \<lparr>data = Some \<lparr>text = JStr (js_of ''old''), alignment = JStr (js_of ''center'')\<rparr>,
        config = Some empty_config, api = Some example_api, readOnly = JBool False\<rparr> empty_page
       = Inr (this, empty_page)" and cfg: "this_config this = empty_config"
    using constructor_Inr [of "\<lparr>data = Some \<lparr>text = JStr (js_of ''old''), alignment = JStr (js_of ''center'')\<rparr>,
        config = Some empty_config, api = Some example_api, readOnly = JBool False\<rparr>" _ empty_config example_api example_svg empty_page]
    by auto
  show ?thesis
    using c cfg
      onPaste_replaces_data [of "\<lparr>pasted_innerHTML = js_of ''hi'', pasted_textAlign = js_of ''right''\<rparr>" this empty_page]
      onPaste_replaces_data [of "\<lparr>pasted_innerHTML = js_of ''hi'', pasted_textAlign = []\<rparr>" this empty_page]
    by (simp add: empty_config_def)
qed

subsection \<open>Render and save\<close>

text \<open>
  C7. Saving the element that \<^verbatim>\<open>render\<close> has just returned does not give the
  text back: \<^verbatim>\<open>render\<close> only schedules the hydration for the next animation frame,
  and until then the element is empty. Once that frame has come, \<^verbatim>\<open>save\<close> returns
  the alignment the block was constructed with and, when the text is a string that the
  browser serialises as it was written, that text.
\<close>

theorem save_after_hydration:
  assumes "constructor rq p pg0 = Inr (this, pg)" and "data p = Some d"
      and "text d = JStr t" and "serialize_html b t = t"
      and "render this pg = (Inr e, this1, pg1)"
  shows "fst (save (Some e) this1 (animation_frame b this1 pg1)) =
           Inr \<lparr>text = JStr t, alignment = alignment d\<rparr>"
proof -
  obtain c a where p: "config p = Some c" "api p = Some a"
    using constructor_InrD [OF assms(1)] by auto
  have f: "this_data this = d" "this_element this = None"
    using constructor_Inr [OF assms(2) p, of rq pg0] assms(1) by auto
  note r = render_first [OF f(2) assms(5)]
  have d1: "this_data this1 = d" "this_element this1 = Some e" using r f by simp_all
  have q: "0 < raf_queue pg1" using r by simp
  have "innerHTML (dom (animation_frame b this1 pg1) e) = t"
    using animation_frame_innerHTML [OF d1(2) q, of b] d1(1) assms(3) assms(4) by simp
  then show ?thesis
    using d1 by (simp add: save_def get_data_pair)
qed

text \<open>
  A block constructed with \<^verbatim>\<open>{text: 'A', alignment: 'center'}\<close>, rendered and saved
  at once, saves the empty text.
\<close>

theorem save_after_hydration_counterexample:
  "save_render example_svg
     (example_params \<lparr>text = JStr (js_of ''A''), alignment = JStr (js_of ''center'')\<rparr>
        empty_config (JBool False))
   = Inr \<lparr>text = JStr [], alignment = JStr (js_of ''center'')\<rparr>"
proof -
  let ?p = "example_params \<lparr>text = JStr (js_of ''A''), alignment = JStr (js_of ''center'')\<rparr>
        empty_config (JBool False)"
  obtain this where c: "constructor example_svg ?p empty_page = Inr (this, empty_page)"
    and f: "this_data this = \<lparr>text = JStr (js_of ''A''), alignment = JStr (js_of ''center'')\<rparr>"
      "this_element this = None" "block (this_CSS this) = JStr (js_of ''cdx-block'')"
      "wrapper (this_CSS this) = js_of ''ce-paragraph''"
      "css_alignment (this_CSS this) =
        [(js_of ''left'', js_of ''ce-paragraph--left''),
         (js_of ''center'', js_of ''ce-paragraph--center''),
         (js_of ''right'', js_of ''ce-paragraph--right''),
         (js_of ''justify'', js_of ''ce-paragraph--justify'')]"
    using example_constructor by blast
  obtain pg1 where r: "render this empty_page = (Inr (dom_next empty_page), this\<lparr>this_element := Some (dom_next empty_page)\<rparr>, pg1)"
    using example_render [OF f(2-5), of empty_page] f(1) by auto
  note r1 = render_first [OF f(2) r]
  show ?thesis
    using c r r1 f(1) by (simp add: save_render_def save_def get_data_pair)
qed

theorem save_after_hydration_witness:
  "\<exists>this this1 pg1.
     constructor example_svg
       (example_params \<lparr>text = JStr (js_of ''A''), alignment = JStr (js_of ''center'')\<rparr>
          empty_config (JBool False)) empty_page = Inr (this, empty_page) \<and>
     render this empty_page = (Inr 0, this1, pg1) \<and>
     fst (save (Some 0) this1 (animation_frame example_browser this1 pg1)) =
       Inr \<lparr>text = JStr (js_of ''A''), alignment = JStr (js_of ''center'')\<rparr>"
proof -
  let ?d = "\<lparr>text = JStr (js_of ''A''), alignment = JStr (js_of ''center'')\<rparr>"
  let ?p = "example_params ?d empty_config (JBool False)"
  obtain this where c: "constructor example_svg ?p empty_page = Inr (this, empty_page)"
    and f: "this_data this = ?d"
      "this_element this = None" "block (this_CSS this) = JStr (js_of ''cdx-block'')"
      "wrapper (this_CSS this) = js_of ''ce-paragraph''"
      "css_alignment (this_CSS this) =
        [(js_of ''left'', js_of ''ce-paragraph--left''),
         (js_of ''center'', js_of ''ce-paragraph--center''),
         (js_of ''right'', js_of ''ce-paragraph--right''),
         (js_of ''justify'', js_of ''ce-paragraph--justify'')]"
    using example_constructor by blast
  obtain pg1 where r: "render this empty_page = (Inr 0, this\<lparr>this_element := Some 0\<rparr>, pg1)"
    using example_render [OF f(2-5), of empty_page] f(1) by (auto simp: empty_page_def)
  have "fst (save (Some 0) (this\<lparr>this_element := Some 0\<rparr>) (animation_frame example_browser (this\<lparr>this_element := Some 0\<rparr>) pg1)) =
       Inr ?d"
    using save_after_hydration [OF c _ _ _ r, of ?d "js_of ''A''" example_browser]
    by (simp add: example_params_def example_browser_def)
  then show ?thesis using c r by blast
qed

subsection \<open>Render creates one element\<close>

text \<open>
  C8. A first call of \<^verbatim>\<open>render\<close> that returns has created exactly one element,
  the one it returns, and remembers it. Whatever happens to the instance afterwards,
  every later call of \<^verbatim>\<open>render\<close> returns that same element, leaves the instance
  as it is, and creates nothing: the document has the same elements after the call as
  before (the call only schedules a hydration).
\<close>

theorem render_memoized:
  assumes "this_element this = None" and "render this pg = (Inr e, this1, pg1)"
  shows "e = dom_next pg \<and> dom_next pg1 = Suc (dom_next pg) \<and> this_element this1 = Some e \<and>
         (\<forall>ops. let (this2, pg2) = run b ops (this1, pg1); (r, this3, pg3) = render this2 pg2
                in r = Inr e \<and> this3 = this2 \<and> dom_next pg3 = dom_next pg2 \<and> dom pg3 = dom pg2)"
proof -
  note f = render_first [OF assms]
  have e1: "this_element this1 = Some e" using f by simp
  have "this_element (fst (run b ops (this1, pg1))) = Some e" for ops
    using run_this [of b ops "(this1, pg1)" e] e1 by simp
  then have "render (fst (run b ops (this1, pg1))) (snd (run b ops (this1, pg1))) =
      (Inr e, fst (run b ops (this1, pg1)), hydrate (snd (run b ops (this1, pg1))))" for ops
    by (rule render_Some)
  then show ?thesis using f e1 by (simp add: case_prod_beta)
qed

theorem render_memoized_witness:
  "\<exists>this this1 pg1.
     constructor example_svg (example_params \<lparr>text = JStr (js_of ''A''), alignment = JStr (js_of ''center'')\<rparr>
        empty_config (JBool False)) empty_page = Inr (this, empty_page) \<and>
     render this empty_page = (Inr 0, this1, pg1) \<and> dom_next pg1 = 1 \<and>
     fst (render (fst (run example_browser [RenderSettings, Render, AnimationFrame] (this1, pg1)))
                 (snd (run example_browser [RenderSettings, Render, AnimationFrame] (this1, pg1)))) = Inr 0"
proof -
  obtain this where c: "constructor example_svg (example_params \<lparr>text = JStr (js_of ''A''), alignment = JStr (js_of ''center'')\<rparr>
        empty_config (JBool False)) empty_page = Inr (this, empty_page)"
    and f: "this_data this = \<lparr>text = JStr (js_of ''A''), alignment = JStr (js_of ''center'')\<rparr>"
      "this_element this = None" "block (this_CSS this) = JStr (js_of ''cdx-block'')"
      "wrapper (this_CSS this) = js_of ''ce-paragraph''"
      "css_alignment (this_CSS this) =
        [(js_of ''left'', js_of ''ce-paragraph--left''),
         (js_of ''center'', js_of ''ce-paragraph--center''),
         (js_of ''right'', js_of ''ce-paragraph--right''),
         (js_of ''justify'', js_of ''ce-paragraph--justify'')]"
    using example_constructor by blast
  obtain pg1 where r: "render this empty_page = (Inr 0, this\<lparr>this_element := Some 0\<rparr>, pg1)"
    using example_render [OF f(2-5), of empty_page] f(1) by (auto simp: empty_page_def)
  have "dom_next pg1 = 1 \<and>
      fst (render (fst (run example_browser [RenderSettings, Render, AnimationFrame] (this\<lparr>this_element := Some 0\<rparr>, pg1)))
                  (snd (run example_browser [RenderSettings, Render, AnimationFrame] (this\<lparr>this_element := Some 0\<rparr>, pg1)))) = Inr 0"
    using render_memoized [OF f(2) r, of example_browser]
    by (simp add: case_prod_beta empty_page_def Let_def del: run.simps)
  then show ?thesis using c r by blast
qed

subsection \<open>Exceptions\<close>

text \<open>
  C9. Take an instance constructed from a data object, a configuration object and the
  host's API, whatever fields the first two lack, where the two class names of the host
  are valid class tokens and the document holds no listener and no pending frame of the
  instance yet. The constructor does not throw, and no sequence of operations on the
  instance throws (render, save, validate, merge, onPaste, renderSettings, the setter,
  clicks, key events, edits of the user, animation frames) as long as: the alignment at
  the first render is not the name of a property that objects inherit (such as
  \<^verbatim>\<open>constructor\<close>), \<^verbatim>\<open>save\<close> is given an element, \<^verbatim>\<open>merge\<close> a data object,
  \<^verbatim>\<open>validate\<close> a data object whose text is a string, and clicks come once the block is
  rendered. \<^verbatim>\<open>validate\<close> calls \<^verbatim>\<open>trim\<close> on the text without a guard: it throws a
  TypeError whenever the text is not a string, a missing text included.
\<close>

theorem no_exception_in_normal_operation:
  assumes "data p = Some d" and "config p = Some c" and "api p = Some a"
      and "check_tokens [to_string (styles_block a), to_string (styles_settingsButtonActive a)] = None"
      and "raf_queue pg = 0" and "\<forall>el. listeners (dom pg el) = []"
  shows "\<exists>st0. constructor rq p pg = Inr st0 \<and>
           (\<forall>ops. normal_run b ops st0 \<longrightarrow> run_errors b ops st0 = []) \<and>
           (\<forall>this d'. \<not> is_string (text d') \<longrightarrow> validate this (Some d') = Inl TypeError)"
proof -
  obtain this where c: "constructor rq p pg = Inr (this, pg)" and w: "well_formed (this, pg)"
    using constructor_well_formed [OF assms, of rq] by blast
  have r: "\<forall>ops. normal_run b ops (this, pg) \<longrightarrow> run_errors b ops (this, pg) = []"
    using run_no_error [OF w] by blast
  have v: "validate this' (Some d') = Inl TypeError" if "\<not> is_string (text d')" for this' d'
    using that by (cases "text d'") (simp_all add: validate_def)
  show ?thesis using c r v by blast
qed

text \<open>Saved data without a text makes \<^verbatim>\<open>validate\<close> throw.\<close>

theorem no_exception_in_normal_operation_counterexample:
  "errors_after example_browser example_svg (example_params empty_object empty_config (JBool False))
     [Validate (Some \<lparr>text = JUndefined, alignment = JStr (js_of ''left'')\<rparr>)] = [TypeError]"
  using example_constructor [of empty_object empty_config "JBool False" empty_page]
  by (auto simp: errors_after_def validate_def)

text \<open>
  A block built from a text without alignment and a configuration without fields is
  rendered, hydrated, given its settings, clicked on the first button, typed in, merged
  with a block without text, saved and validated; then a saved data whose text is null is
  validated.
\<close>

theorem no_exception_in_normal_operation_witness:
  "errors_after example_browser example_svg
     (example_params \<lparr>text = JStr (js_of ''A''), alignment = JUndefined\<rparr> empty_config (JBool False))
     [Render, AnimationFrame, RenderSettings, Click 2, KeyUp 0 (js_of ''Backspace''),
      Merge (Some empty_object), Save (Some 0),
      Validate (Some \<lparr>text = JStr (js_of ''A''), alignment = JUndefined\<rparr>)] = [] \<and>
   errors_after example_browser example_svg
     (example_params \<lparr>text = JStr (js_of ''A''), alignment = JUndefined\<rparr> empty_config (JBool False))
     [Validate (Some \<lparr>text = JNull, alignment = JUndefined\<rparr>)] = [TypeError]"
proof -
  let ?d = "\<lparr>text = JStr (js_of ''A''), alignment = JUndefined\<rparr>"
  let ?p = "example_params ?d empty_config (JBool False)"
  let ?ops = "[AnimationFrame, RenderSettings, Click 2, KeyUp 0 (js_of ''Backspace''),
      Merge (Some empty_object), Save (Some 0), Validate (Some ?d)]"
  have tk: "check_tokens [to_string (styles_block example_api),
              to_string (styles_settingsButtonActive example_api)] = None"
    by (simp add: example_api_def js_of_def ascii_white_space_def)
  obtain st0 where c: "constructor example_svg ?p empty_page = Inr st0"
    and r: "\<forall>ops. normal_run example_browser ops st0 \<longrightarrow> run_errors example_browser ops st0 = []"
    and v: "\<forall>this d'. \<not> is_string (text d') \<longrightarrow> validate this (Some d') = Inl TypeError"
    using no_exception_in_normal_operation [of ?p ?d empty_config example_api empty_page
            example_svg example_browser] tk
    by (auto simp: example_params_def empty_page_def new_element_def)
  obtain this where t: "constructor example_svg ?p empty_page = Inr (this, empty_page)"
    and td: "this_data this = ?d" and te: "this_element this = None"
    and tb: "block (this_CSS this) = JStr (js_of ''cdx-block'')"
    and tw: "wrapper (this_CSS this) = js_of ''ce-paragraph''"
    and ta: "css_alignment (this_CSS this) =
        [(js_of ''left'', js_of ''ce-paragraph--left''),
         (js_of ''center'', js_of ''ce-paragraph--center''),
         (js_of ''right'', js_of ''ce-paragraph--right''),
         (js_of ''justify'', js_of ''ce-paragraph--justify'')]"
    using example_constructor [of ?d empty_config "JBool False" empty_page] by blast
  have st0: "st0 = (this, empty_page)" using c t by simp
  obtain pg1 where rd: "render this empty_page = (Inr 0, this\<lparr>this_element := Some 0\<rparr>, pg1)"
    using example_render [OF te tb tw ta, of empty_page] td by (auto simp: empty_page_def)
  have n1: "normal_op this Render"
    using te td by (simp add: object_prototype_names_def js_of_def)
  have "normal_run example_browser ?ops (this\<lparr>this_element := Some 0\<rparr>, pg1)"
    by (rule normal_run_rendered) simp_all
  then have "normal_run example_browser (Render # ?ops) st0"
    using n1 rd st0 by (simp del: normal_run.simps(2) add: normal_run.simps(2) [of _ Render])
  then have 1: "run_errors example_browser (Render # ?ops) st0 = []" using r by blast
  have 2: "validate this (Some \<lparr>text = JNull, alignment = JUndefined\<rparr>) = Inl TypeError"
    using v by simp
  have 3: "run_errors example_browser [Validate (Some \<lparr>text = JNull, alignment = JUndefined\<rparr>)] st0
             = [TypeError]"
    using 2 st0 by simp
  show ?thesis using 1 3 c by (simp add: errors_after_def del: run_errors.simps)
qed

subsection \<open>Read-only\<close>

text \<open>
  C10. Take an instance at any point of its life and an element that \<^verbatim>\<open>render\<close>
  returns for it. When the instance was constructed with a truthy \<^verbatim>\<open>readOnly\<close>
  (\<^verbatim>\<open>true\<close>), the element is not editable and has no listener at all, so a keyup
  event on it runs nothing and \<^verbatim>\<open>onKeyUp\<close> does not fire; when \<^verbatim>\<open>readOnly\<close>
  is falsy (\<^verbatim>\<open>false\<close>), the element is editable and its one listener is
  \<^verbatim>\<open>onKeyUp\<close>, for keyup.
\<close>

theorem readOnly_view:
  assumes "constructor rq p pg0 = Inr st0" and "run b ops st0 = (this, pg)"
      and "render this pg = (Inr e, this1, pg1)"
  shows "contentEditable (dom pg1 e) = (if truthy (readOnly p) then CE_false else CE_true) \<and>
         listeners (dom pg1 e) = (if truthy (readOnly p) then [] else [(js_of ''keyup'', OnKeyUp)]) \<and>
         (truthy (readOnly p) \<longrightarrow> step b (KeyUp e code) (this1, pg1) = (this1, pg1))"
proof -
  obtain d c a where p: "data p = Some d" "config p = Some c" "api p = Some a"
    using constructor_InrD [OF assms(1)] by auto
  obtain this0 where c0: "constructor rq p pg0 = Inr (this0, pg0)"
      and f: "this_element this0 = None" "this_readOnly this0 = readOnly p"
    using constructor_Inr [OF p, of rq pg0] by auto
  have st0: "st0 = (this0, pg0)" using c0 assms(1) by simp
  have "view_ok (this_readOnly (fst st0)) st0" using f st0 by (simp add: view_ok_def)
  then have "view_ok (this_readOnly (fst st0)) (run b ops st0)" by (rule run_view_ok)
  then have v: "view_ok (readOnly p) (this, pg)" using assms(2) st0 f by simp
  have ro: "this_readOnly this = readOnly p"
    using run_this [of b ops st0] assms(2) st0 f by (metis fst_conv shell_fields(2))
  have r: "contentEditable (dom pg1 e) = (if truthy (readOnly p) then CE_false else CE_true) \<and>
        listeners (dom pg1 e) = (if truthy (readOnly p) then [] else [(js_of ''keyup'', OnKeyUp)])"
  proof (cases "this_element this")
    case None
    then show ?thesis using render_first [OF None assms(3)] ro by auto
  next
    case (Some e')
    then show ?thesis using render_Some [OF Some, of pg] assms(3) v by (auto simp: view_ok_def)
  qed
  then show ?thesis by (simp add: dispatch_no_listeners)
qed

theorem readOnly_view_witness:
  "(\<exists>this this1 pg1.
      constructor example_svg (example_params empty_object empty_config (JBool True)) empty_page
        = Inr (this, empty_page) \<and>
      render this empty_page = (Inr 0, this1, pg1) \<and>
      contentEditable (dom pg1 0) = CE_false \<and> listeners (dom pg1 0) = [] \<and>
      step example_browser (KeyUp 0 (js_of ''Backspace'')) (this1, pg1) = (this1, pg1)) \<and>
   (\<exists>this this1 pg1.
      constructor example_svg (example_params empty_object empty_config (JBool False)) empty_page
        = Inr (this, empty_page) \<and>
      render this empty_page = (Inr 0, this1, pg1) \<and>
      contentEditable (dom pg1 0) = CE_true \<and>
      listeners (dom pg1 0) = [(js_of ''keyup'', OnKeyUp)])"
proof -
  have w: "\<exists>this this1 pg1.
      constructor example_svg (example_params empty_object empty_config ro) empty_page
        = Inr (this, empty_page) \<and>
      run example_browser [] (this, empty_page) = (this, empty_page) \<and>
      render this empty_page = (Inr 0, this1, pg1)" for ro
  proof -
    obtain this where c: "constructor example_svg (example_params empty_object empty_config ro) empty_page
          = Inr (this, empty_page)"
      and f: "this_data this = empty_object"
        "this_element this = None" "block (this_CSS this) = JStr (js_of ''cdx-block'')"
        "wrapper (this_CSS this) = js_of ''ce-paragraph''"
        "css_alignment (this_CSS this) =
          [(js_of ''left'', js_of ''ce-paragraph--left''),
           (js_of ''center'', js_of ''ce-paragraph--center''),
           (js_of ''right'', js_of ''ce-paragraph--right''),
           (js_of ''justify'', js_of ''ce-paragraph--justify'')]"
      using example_constructor by blast
    obtain pg1 where r: "render this empty_page = (Inr 0, this\<lparr>this_element := Some 0\<rparr>, pg1)"
      using example_render [OF f(2-5), of empty_page] f(1) by (auto simp: empty_page_def empty_object_def)
    show ?thesis using c r by auto
  qed
  obtain this this1 pg1 where a:
      "constructor example_svg (example_params empty_object empty_config (JBool True)) empty_page
        = Inr (this, empty_page)"
      "run example_browser [] (this, empty_page) = (this, empty_page)"
      "render this empty_page = (Inr 0, this1, pg1)"
    using w [of "JBool True"] by blast
  obtain this' this1' pg1' where b:
      "constructor example_svg (example_params empty_object empty_config (JBool False)) empty_page
        = Inr (this', empty_page)"
      "run example_browser [] (this', empty_page) = (this', empty_page)"
      "render this' empty_page = (Inr 0, this1', pg1')"
    using w [of "JBool False"] by blast
  have ta: "contentEditable (dom pg1 0) = CE_false \<and> listeners (dom pg1 0) = [] \<and>
      step example_browser (KeyUp 0 (js_of ''Backspace'')) (this1, pg1) = (this1, pg1)"
    using readOnly_view [OF a, of "js_of ''Backspace''"] by (simp add: example_params_def del: step.simps)
  have tb: "contentEditable (dom pg1' 0) = CE_true \<and> listeners (dom pg1' 0) = [(js_of ''keyup'', OnKeyUp)]"
    using readOnly_view [OF b, of "js_of ''Backspace''"] by (simp add: example_params_def del: step.simps)
  show ?thesis using a b ta tb by blast
qed

end
